theory Spec2Isabelle
  imports
    Main
    "HOL-Library.AList"
    "HOL-Library.List_Lexorder"
    "HOL-Library.Char_ord"
begin

section \<open>Fliq match-result watcher: normalizer, reconciler and periodic validator\<close>

text \<open>
  The development embeds the two programs of the repository, the single-run
  \<^verbatim>\<open>fliq_match_result_cron.py\<close> and the long-running \<^verbatim>\<open>fliq_match_result_watcher.py\<close>.
  Python dictionaries are association lists in insertion order (\<open>map_of\<close> reads a key,
  \<open>AList.update\<close> assigns one, keeping its position or appending it, \<open>AList.delete\<close>
  pops one); every exception the source can raise is a value \<open>Inl e\<close>; the clock, the
  HTTP fetch and the formatting of an epoch time as ISO-8601 text are arguments.
  A string is a list of characters, each a code point below 256 (ASCII and Latin-1); text
  with a code point beyond that is outside the model.
\<close>

subsection \<open>Characters and strings\<close>

text \<open>
  Python's \<^verbatim>\<open>str.isspace\<close>, which is the class removed by \<^verbatim>\<open>str.strip()\<close> and the
  regular expression class \<^verbatim>\<open>\s\<close>, on the code points below 256.
\<close>

definition is_space :: "char \<Rightarrow> bool" where
  "is_space c = (c \<in> set [CHR 0x09, CHR 0x0A, CHR 0x0B, CHR 0x0C, CHR 0x0D,
                            CHR 0x1C, CHR 0x1D, CHR 0x1E, CHR 0x1F, CHR '' '',
                            CHR 0x85, CHR 0xA0])"

text \<open>
  The characters that \<^verbatim>\<open>str.lower()\<close> changes: the letters \<^verbatim>\<open>A\<close> to \<^verbatim>\<open>Z\<close> and the
  Latin-1 capitals U+00C0 to U+00DE, the multiplication sign U+00D7 apart. Each moves up by
  32.
\<close>

definition is_upper :: "char \<Rightarrow> bool" where
  "is_upper c =
     ((CHR ''A'' \<le> c \<and> c \<le> CHR ''Z'') \<or>
      (CHR 0xC0 \<le> c \<and> c \<le> CHR 0xDE \<and> c \<noteq> CHR 0xD7))"

definition is_digit :: "char \<Rightarrow> bool" where
  "is_digit c = (CHR ''0'' \<le> c \<and> c \<le> CHR ''9'')"

text \<open>The character class \<^verbatim>\<open>[a-z0-9]\<close>.\<close>

definition is_lower_alnum :: "char \<Rightarrow> bool" where
  "is_lower_alnum c = ((CHR ''a'' \<le> c \<and> c \<le> CHR ''z'') \<or> is_digit c)"

definition lower_char :: "char \<Rightarrow> char" where
  "lower_char c = (if is_upper c then char_of (of_char c + (32::nat)) else c)"

text \<open>\<^verbatim>\<open>s.lower()\<close>\<close>

definition py_lower :: "string \<Rightarrow> string" where
  "py_lower s = map lower_char s"

definition rstrip_chars :: "(char \<Rightarrow> bool) \<Rightarrow> string \<Rightarrow> string" where
  "rstrip_chars P s = rev (dropWhile P (rev s))"

text \<open>Removing the leading and the trailing characters of a class, as \<^verbatim>\<open>str.strip\<close> does.\<close>

definition strip_chars :: "(char \<Rightarrow> bool) \<Rightarrow> string \<Rightarrow> string" where
  "strip_chars P s = rstrip_chars P (dropWhile P s)"

text \<open>\<^verbatim>\<open>s.strip()\<close>\<close>

definition py_strip :: "string \<Rightarrow> string" where
  "py_strip s = strip_chars is_space s"

text \<open>\<^verbatim>\<open>s.replace(a, b)\<close> for one-character \<open>a\<close> and \<open>b\<close>.\<close>

definition py_replace_char :: "char \<Rightarrow> char \<Rightarrow> string \<Rightarrow> string" where
  "py_replace_char a b s = map (\<lambda>c. if c = a then b else c) s"

text \<open>\<^verbatim>\<open>re.sub(r"[cls]", r, s)\<close>: every character of the class becomes \<open>r\<close>.\<close>

definition re_sub_class :: "(char \<Rightarrow> bool) \<Rightarrow> char \<Rightarrow> string \<Rightarrow> string" where
  "re_sub_class P r s = map (\<lambda>c. if P c then r else c) s"

text \<open>\<^verbatim>\<open>re.sub(r"[cls]+", r, s)\<close>: every maximal run of the class becomes one \<open>r\<close>.\<close>

function re_sub_runs :: "(char \<Rightarrow> bool) \<Rightarrow> char \<Rightarrow> string \<Rightarrow> string" where
  "re_sub_runs P r [] = []"
| "re_sub_runs P r (c # cs) =
     (if P c then r # re_sub_runs P r (dropWhile P cs) else c # re_sub_runs P r cs)"
  by pat_completeness auto
termination
  by (relation "measure (\<lambda>(P, r, s). length s)")
     (auto simp: le_imp_less_Suc length_dropWhile_le)

text \<open>\<^verbatim>\<open>sep.join(parts)\<close>\<close>

fun py_join :: "string \<Rightarrow> string list \<Rightarrow> string" where
  "py_join sep [] = []"
| "py_join sep [x] = x"
| "py_join sep (x # y # ys) = x @ sep @ py_join sep (y # ys)"

fun is_prefix :: "string \<Rightarrow> string \<Rightarrow> bool" where
  "is_prefix [] s = True"
| "is_prefix (a # as) [] = False"
| "is_prefix (a # as) (c # cs) = (a = c \<and> is_prefix as cs)"

text \<open>\<^verbatim>\<open>sub in s\<close> on strings: \<open>sub\<close> occurs in \<open>s\<close> as a contiguous block.\<close>

fun py_in :: "string \<Rightarrow> string \<Rightarrow> bool" where
  "py_in sub [] = (sub = [])"
| "py_in sub (c # cs) = (is_prefix sub (c # cs) \<or> py_in sub cs)"

subsection \<open>Slugs\<close>

text \<open>\<^verbatim>\<open>slugify\<close> of the watcher (the argument is a string, so \<^verbatim>\<open>text or ""\<close> is \<open>text\<close>).\<close>

definition slugify :: "string \<Rightarrow> string" where
  "slugify text =
     (let s = py_strip (py_lower text);
          s = py_replace_char CHR '':'' CHR '' '' s;
          s = re_sub_class (\<lambda>c. \<not> (is_lower_alnum c \<or> is_space c)) CHR '' '' s;
          s = re_sub_runs is_space CHR ''-'' s;
          s = re_sub_runs (\<lambda>c. c = CHR ''-'') CHR ''-'' s
      in strip_chars (\<lambda>c. c = CHR ''-'') s)"

text \<open>The cron script's \<^verbatim>\<open>slugify_header\<close> repeats the body of \<^verbatim>\<open>slugify\<close> line for line.\<close>

definition slugify_header :: "string \<Rightarrow> string" where
  "slugify_header header =
     (let s = py_strip (py_lower header);
          s = py_replace_char CHR '':'' CHR '' '' s;
          s = re_sub_class (\<lambda>c. \<not> (is_lower_alnum c \<or> is_space c)) CHR '' '' s;
          s = re_sub_runs is_space CHR ''-'' s;
          s = re_sub_runs (\<lambda>c. c = CHR ''-'') CHR ''-'' s
      in strip_chars (\<lambda>c. c = CHR ''-'') s)"

text \<open>
  The slug as the specification words it: the lowercase form, every character other than a
  lowercase alphanumeric replaced by a hyphen, runs of hyphens collapsed, leading and
  trailing hyphens trimmed.
\<close>

definition slug_spec :: "string \<Rightarrow> string" where
  "slug_spec header =
     strip_chars (\<lambda>c. c = CHR ''-'')
       (re_sub_runs (\<lambda>c. c = CHR ''-'') CHR ''-''
          (map (\<lambda>c. if is_lower_alnum c then c else CHR ''-'') (py_lower header)))"

subsection \<open>Errors, scalars and integers\<close>

datatype py_error = AttributeError | TypeError | ValueError | KeyError | TransportError

text \<open>
  A field of a raw API record: JSON null (also an absent key, since every access is
  \<^verbatim>\<open>.get\<close>), a boolean, an integer or a string. Floats and nested containers in these
  positions are outside the model. An integer is one the JSON decoder produced, which
  converts with \<^verbatim>\<open>int\<close> and so admits at most \<open>int_max_str_digits\<close> digits: \<^verbatim>\<open>str\<close> of
  it does not raise.
\<close>

datatype scalar = SNull | SBool bool | SInt int | SStr string

text \<open>Python truthiness, \<^verbatim>\<open>bool(v)\<close>.\<close>

fun truthy :: "scalar \<Rightarrow> bool" where
  "truthy SNull = False"
| "truthy (SBool b) = b"
| "truthy (SInt n) = (n \<noteq> 0)"
| "truthy (SStr s) = (s \<noteq> [])"

text \<open>\<^verbatim>\<open>a or b\<close>\<close>

definition py_or :: "scalar \<Rightarrow> scalar \<Rightarrow> scalar" where
  "py_or a b = (if truthy a then a else b)"

definition digit_char :: "nat \<Rightarrow> char" where
  "digit_char d = char_of (48 + d)"

function digits_of :: "nat \<Rightarrow> string" where
  "digits_of n = (if n < 10 then [digit_char n] else digits_of (n div 10) @ [digit_char (n mod 10)])"
  by pat_completeness auto
termination
  by (relation "measure (\<lambda>n. n)") auto

text \<open>\<^verbatim>\<open>str(n)\<close> of an integer: its decimal digits, with a minus sign when negative.\<close>

definition show_int :: "int \<Rightarrow> string" where
  "show_int i = (if i < 0 then CHR ''-'' # digits_of (nat (- i)) else digits_of (nat i))"

text \<open>\<^verbatim>\<open>str(v)\<close>\<close>

fun py_str :: "scalar \<Rightarrow> string" where
  "py_str SNull = ''None''"
| "py_str (SBool b) = (if b then ''True'' else ''False'')"
| "py_str (SInt n) = show_int n"
| "py_str (SStr s) = s"

text \<open>
  The body of a decimal literal accepted by \<^verbatim>\<open>int(s)\<close>: digits, with single underscores
  allowed between digits.
\<close>

fun valid_digits :: "string \<Rightarrow> bool" where
  "valid_digits [] = False"
| "valid_digits [c] = is_digit c"
| "valid_digits (c # d # cs) =
     (is_digit c \<and> (if d = CHR ''_'' then valid_digits cs else valid_digits (d # cs)))"

definition digit_val :: "char \<Rightarrow> nat" where
  "digit_val c = of_char c - 48"

definition digits_value :: "string \<Rightarrow> nat" where
  "digits_value s = foldl (\<lambda>acc c. 10 * acc + digit_val c) 0 (filter is_digit s)"

text \<open>
  The white space that \<^verbatim>\<open>int(s)\<close> skips at both ends of a string: the class of C's
  \<^verbatim>\<open>isspace\<close>, and the two spaces beyond ASCII, U+0085 and U+00A0, which the conversion
  turns into blanks first. The separators U+001C to U+001F, which \<^verbatim>\<open>str.strip()\<close>
  removes, are not skipped: \<^verbatim>\<open>int("\x1c300")\<close> raises \<^verbatim>\<open>ValueError\<close>.
\<close>

definition int_space :: "char \<Rightarrow> bool" where
  "int_space c = (c \<in> set [CHR 0x09, CHR 0x0A, CHR 0x0B, CHR 0x0C, CHR 0x0D, CHR '' '',
                             CHR 0x85, CHR 0xA0])"

text \<open>
  The interpreter's limit on the number of digits of a decimal string that \<^verbatim>\<open>int\<close>
  converts, \<^verbatim>\<open>sys.get_int_max_str_digits()\<close>; neither program changes the default.
\<close>

definition int_max_str_digits :: nat where
  "int_max_str_digits = 4300"

text \<open>
  \<^verbatim>\<open>int(s)\<close> on a string: the white space at both ends is skipped, one sign is allowed,
  the rest must be a decimal body of at most \<open>int_max_str_digits\<close> digits (underscores
  not counted, leading zeros counted); anything else raises \<^verbatim>\<open>ValueError\<close> (here
  \<open>None\<close>).
\<close>

definition parse_int :: "string \<Rightarrow> int option" where
  "parse_int s =
     (let t = strip_chars int_space s;
          neg = (t \<noteq> [] \<and> hd t = CHR ''-'');
          body = (if t \<noteq> [] \<and> (hd t = CHR ''-'' \<or> hd t = CHR ''+'') then tl t else t)
      in if valid_digits body \<and> length (filter is_digit body) \<le> int_max_str_digits
         then Some (if neg then - int (digits_value body) else int (digits_value body))
         else None)"

text \<open>\<^verbatim>\<open>int(v)\<close>\<close>

fun py_int :: "scalar \<Rightarrow> py_error + int" where
  "py_int SNull = Inl TypeError"
| "py_int (SBool b) = Inr (if b then 1 else 0)"
| "py_int (SInt n) = Inr n"
| "py_int (SStr s) = (case parse_int s of None \<Rightarrow> Inl ValueError | Some n \<Rightarrow> Inr n)"

text \<open>
  A string method called on a value: only a string has it, any other value raises
  \<^verbatim>\<open>AttributeError\<close>.
\<close>

fun str_method :: "(string \<Rightarrow> string) \<Rightarrow> scalar \<Rightarrow> py_error + string" where
  "str_method f (SStr s) = Inr (f s)"
| "str_method f SNull = Inl AttributeError"
| "str_method f (SBool b) = Inl AttributeError"
| "str_method f (SInt n) = Inl AttributeError"

subsection \<open>Raw API records\<close>

record metadata =
  category :: scalar
  questionHeader :: scalar
  parentQuestionHeader :: scalar
  questionHeaderExpanded :: scalar
  questionEndTime :: scalar
  parentQuestionId :: scalar

text \<open>
  One element of the \<^verbatim>\<open>questions\<close> array. \<open>blockchainMetadata = None\<close> stands for an
  absent, null or empty object: \<^verbatim>\<open>q.get("blockchainMetadata") or {}\<close> is the empty
  dictionary in each case, and every field read from it is \<^verbatim>\<open>None\<close>.
\<close>

record question =
  questionId :: scalar
  isSettled :: scalar
  yesTokenMarketId :: scalar
  noTokenMarketId :: scalar
  blockchainMetadata :: "metadata option"

text \<open>\<^verbatim>\<open>bm.get(field)\<close> with \<^verbatim>\<open>bm = q.get("blockchainMetadata") or {}\<close>\<close>

definition bm_get :: "(metadata \<Rightarrow> scalar) \<Rightarrow> question \<Rightarrow> scalar" where
  "bm_get field q = (case blockchainMetadata q of None \<Rightarrow> SNull | Some bm \<Rightarrow> field bm)"

subsection \<open>The filter for upcoming match-result options\<close>

text \<open>
  \<^verbatim>\<open>is_upcoming_match_option\<close>; \<open>now\<close> is
  \<^verbatim>\<open>int(datetime.now(timezone.utc).timestamp())\<close>. The result is \<open>Inl AttributeError\<close>
  when the category is a true non-string value, which has no \<^verbatim>\<open>lower\<close>.
\<close>

definition is_upcoming_match_option :: "question \<Rightarrow> int \<Rightarrow> py_error + bool" where
  "is_upcoming_match_option q now =
     (case str_method py_lower (py_or (bm_get category q) (SStr [])) of
        Inl e \<Rightarrow> Inl e
      | Inr cat \<Rightarrow>
          (let headers = py_lower (py_join '' ''
                 [py_str (py_or (bm_get questionHeader q) (SStr [])),
                  py_str (py_or (bm_get parentQuestionHeader q) (SStr [])),
                  py_str (py_or (bm_get questionHeaderExpanded q) (SStr []))])
           in if cat \<noteq> ''football'' then Inr False
              else if \<not> py_in ''match result'' headers then Inr False
              else if isSettled q = SBool True then Inr False
              else (case py_int (py_or (bm_get questionEndTime q) (SInt 0)) of
                      Inl e \<Rightarrow> Inr False
                    | Inr end_ts \<Rightarrow> Inr (end_ts > now))))"

text \<open>The cron script's \<^verbatim>\<open>looks_like_upcoming_match\<close> has the same body.\<close>

definition looks_like_upcoming_match :: "question \<Rightarrow> int \<Rightarrow> py_error + bool" where
  "looks_like_upcoming_match q now = is_upcoming_match_option q now"

subsection \<open>Market groups and snapshots\<close>

text \<open>One entry of a group's \<^verbatim>\<open>options\<close> list.\<close>

record market_option =
  questionId :: string
  title :: string
  yesTokenMarketId :: string
  noTokenMarketId :: string
  option_is_tradable :: bool

text \<open>A value stored under a field of a group.\<close>

datatype jvalue = JNull | JBool bool | JInt int | JStr string | JOptions "market_option list"

text \<open>
  A group is a dictionary from field names to values and a snapshot a dictionary from keys
  to groups, both in insertion order. A group read from the snapshot file may lack any
  field, \<^verbatim>\<open>first_detected_at\<close> included.
\<close>

type_synonym group = "(string \<times> jvalue) list"

type_synonym snapshot = "(string \<times> group) list"

fun jtruthy :: "jvalue \<Rightarrow> bool" where
  "jtruthy JNull = False"
| "jtruthy (JBool b) = b"
| "jtruthy (JInt n) = (n \<noteq> 0)"
| "jtruthy (JStr s) = (s \<noteq> [])"
| "jtruthy (JOptions os) = (os \<noteq> [])"

text \<open>\<^verbatim>\<open>d.get(k)\<close> and \<^verbatim>\<open>d.get(k, default)\<close>\<close>

definition dict_get :: "group \<Rightarrow> string \<Rightarrow> jvalue" where
  "dict_get d k = (case map_of d k of None \<Rightarrow> JNull | Some v \<Rightarrow> v)"

definition dict_get_default :: "group \<Rightarrow> string \<Rightarrow> jvalue \<Rightarrow> jvalue" where
  "dict_get_default d k dflt = (case map_of d k of None \<Rightarrow> dflt | Some v \<Rightarrow> v)"

text \<open>\<^verbatim>\<open>d[key][field] = v\<close>, a \<^verbatim>\<open>KeyError\<close> when \<open>key\<close> is not in \<open>d\<close>.\<close>

definition set_group_field :: "string \<Rightarrow> string \<Rightarrow> jvalue \<Rightarrow> snapshot \<Rightarrow> py_error + snapshot" where
  "set_group_field key field v d =
     (case map_of d key of
        None \<Rightarrow> Inl KeyError
      | Some g \<Rightarrow> Inr (AList.update key (AList.update field v g) d))"

text \<open>\<^verbatim>\<open>d[key]["options"].append(opt)\<close>\<close>

definition append_option :: "string \<Rightarrow> market_option \<Rightarrow> snapshot \<Rightarrow> py_error + snapshot" where
  "append_option key opt d =
     (case map_of d key of
        None \<Rightarrow> Inl KeyError
      | Some g \<Rightarrow>
          (case map_of g ''options'' of
             None \<Rightarrow> Inl KeyError
           | Some (JOptions os) \<Rightarrow>
               Inr (AList.update key (AList.update ''options'' (JOptions (os @ [opt])) g) d)
           | Some _ \<Rightarrow> Inl AttributeError))"

subsection \<open>The normalizer\<close>

text \<open>
  \<^verbatim>\<open>tradable = bool(yes) and bool(no) and str(yes) != "0" and str(no) != "0"\<close>
\<close>

definition tradable :: "scalar \<Rightarrow> scalar \<Rightarrow> bool" where
  "tradable yes no = (truthy yes \<and> truthy no \<and> py_str yes \<noteq> ''0'' \<and> py_str no \<noteq> ''0'')"

text \<open>
  The body of the loop over the candidates in \<^verbatim>\<open>build_live_snapshot\<close>. The argument
  \<open>utc_iso\<close> is \<^verbatim>\<open>utc_iso_from_unix\<close> (\<^verbatim>\<open>unix_to_iso\<close> in the cron script), the
  formatting of epoch seconds as ISO-8601 text. \<^verbatim>\<open>parent_header.strip()\<close> and the
  \<^verbatim>\<open>strip\<close> of the title raise \<^verbatim>\<open>AttributeError\<close> on a true non-string value.
\<close>

definition build_step :: "(int \<Rightarrow> string) \<Rightarrow> question \<Rightarrow> snapshot \<Rightarrow> py_error + snapshot" where
  "build_step utc_iso q groups =
     (let parent_header = py_or (bm_get parentQuestionHeader q) (SStr []);
          parent_id = bm_get parentQuestionId q
      in if \<not> truthy parent_header \<or> \<not> truthy parent_id then Inr groups
         else
           (case parent_header of
              SStr header \<Rightarrow>
                (let key = py_strip header;
                     end_ts = (case py_int (py_or (bm_get questionEndTime q) (SInt 0)) of
                                 Inl e \<Rightarrow> JNull
                               | Inr n \<Rightarrow> JInt n);
                     groups =
                       (if map_of groups key = None
                        then AList.update key
                               [(''match_header'', JStr header),
                                (''slug'', JStr (slugify header)),
                                (''multi_question_id'', JStr (py_str parent_id)),
                                (''options'', JOptions []),
                                (''questionEndTime'', end_ts),
                                (''questionEndTime_iso'',
                                   JStr (case end_ts of
                                           JInt n \<Rightarrow> if n \<noteq> 0 then utc_iso n else []
                                         | _ \<Rightarrow> [])),
                                (''is_approved'', JBool False)]
                               groups
                        else groups);
                     yes = question.yesTokenMarketId q;
                     no = question.noTokenMarketId q
                 in case str_method py_strip
                           (py_or (py_or (bm_get questionHeaderExpanded q) (bm_get questionHeader q))
                              (SStr [])) of
                      Inl e \<Rightarrow> Inl e
                    | Inr option_title \<Rightarrow>
                        (case append_option key
                                \<lparr>questionId = py_str (question.questionId q),
                                 title = option_title,
                                 yesTokenMarketId = (if truthy yes then py_str yes else []),
                                 noTokenMarketId = (if truthy no then py_str no else []),
                                 option_is_tradable = tradable yes no\<rparr>
                                groups of
                           Inl e \<Rightarrow> Inl e
                         | Inr groups \<Rightarrow>
                             if tradable yes no
                             then set_group_field key ''is_approved'' (JBool True) groups
                             else Inr groups))
            | _ \<Rightarrow> Inl AttributeError))"

text \<open>\<^verbatim>\<open>for q in candidates: ...\<close>, stopping at the first exception.\<close>

fun build_loop :: "(int \<Rightarrow> string) \<Rightarrow> question list \<Rightarrow> snapshot \<Rightarrow> py_error + snapshot" where
  "build_loop utc_iso [] groups = Inr groups"
| "build_loop utc_iso (q # qs) groups =
     (case build_step utc_iso q groups of
        Inl e \<Rightarrow> Inl e
      | Inr groups' \<Rightarrow> build_loop utc_iso qs groups')"

text \<open>
  \<^verbatim>\<open>[q for q in questions if is_upcoming_match_option(q)]\<close>; one reading of the clock
  serves the whole pass.
\<close>

fun filter_candidates :: "question list \<Rightarrow> int \<Rightarrow> py_error + question list" where
  "filter_candidates [] now = Inr []"
| "filter_candidates (q # qs) now =
     (case is_upcoming_match_option q now of
        Inl e \<Rightarrow> Inl e
      | Inr keep \<Rightarrow>
          (case filter_candidates qs now of
             Inl e \<Rightarrow> Inl e
           | Inr rest \<Rightarrow> Inr (if keep then q # rest else rest)))"

text \<open>\<^verbatim>\<open>{k: v for k, v in groups.items() if v.get("is_approved")}\<close>\<close>

definition approved_only :: "snapshot \<Rightarrow> snapshot" where
  "approved_only groups = filter (\<lambda>(k, v). jtruthy (dict_get v ''is_approved'')) groups"

text \<open>
  \<^verbatim>\<open>build_live_snapshot\<close>; \<open>fetched\<close> is what \<^verbatim>\<open>fetch_questions\<close> returned or raised.
\<close>

definition build_live_snapshot ::
  "(int \<Rightarrow> string) \<Rightarrow> py_error + question list \<Rightarrow> int \<Rightarrow> bool \<Rightarrow> py_error + snapshot" where
  "build_live_snapshot utc_iso fetched now require_approved =
     (case fetched of
        Inl e \<Rightarrow> Inl e
      | Inr questions \<Rightarrow>
          (case filter_candidates questions now of
             Inl e \<Rightarrow> Inl e
           | Inr candidates \<Rightarrow>
               (case build_loop utc_iso candidates [] of
                  Inl e \<Rightarrow> Inl e
                | Inr groups \<Rightarrow> Inr (if require_approved then approved_only groups else groups))))"

text \<open>The cron script's \<^verbatim>\<open>build_current_matches_snapshot\<close> has the same body.\<close>

definition build_current_matches_snapshot ::
  "(int \<Rightarrow> string) \<Rightarrow> py_error + question list \<Rightarrow> int \<Rightarrow> bool \<Rightarrow> py_error + snapshot" where
  "build_current_matches_snapshot utc_iso fetched now require_approved =
     build_live_snapshot utc_iso fetched now require_approved"

subsection \<open>The clock\<close>

text \<open>What \<^verbatim>\<open>datetime.now()\<close> returned, as its calendar fields.\<close>

record local_time =
  year :: nat
  month :: nat
  day :: nat
  hour :: nat
  minute :: nat
  second :: nat

definition zero_pad :: "nat \<Rightarrow> nat \<Rightarrow> string" where
  "zero_pad width n = replicate (width - length (digits_of n)) CHR ''0'' @ digits_of n"

text \<open>\<^verbatim>\<open>now_iso()\<close>: \<^verbatim>\<open>datetime.now().strftime("%Y-%m-%d %H:%M:%S")\<close>\<close>

definition now_iso :: "local_time \<Rightarrow> string" where
  "now_iso d =
     zero_pad 4 (year d) @ ''-'' @ zero_pad 2 (month d) @ ''-'' @ zero_pad 2 (day d) @ '' '' @
     zero_pad 2 (hour d) @ '':'' @ zero_pad 2 (minute d) @ '':'' @ zero_pad 2 (second d)"

subsection \<open>Reconciliation\<close>

text \<open>
  The loop \<^verbatim>\<open>for k in current_keys: if k in saved and "first_detected_at" in saved[k]:
  current[k]["first_detected_at"] = saved[k]["first_detected_at"]\<close>, the same in both
  programs. \<open>AList.map_entry k f\<close> is the mutation of the group stored under \<open>k\<close>; \<open>k\<close>
  ranges over the keys of \<open>current\<close>, so \<^verbatim>\<open>current[k]\<close> cannot raise. The keys are visited
  in the order of the dictionary (the source visits a set, in no particular order).
\<close>

definition carry_over :: "snapshot \<Rightarrow> snapshot \<Rightarrow> snapshot" where
  "carry_over saved current =
     fold (\<lambda>k cur.
             case map_of saved k of
               None \<Rightarrow> cur
             | Some old \<Rightarrow>
                 (case map_of old ''first_detected_at'' of
                    None \<Rightarrow> cur
                  | Some v \<Rightarrow> AList.map_entry k (AList.update ''first_detected_at'' v) cur))
          (map fst current) current"

text \<open>\<^verbatim>\<open>sorted(list(current_keys - saved_keys))\<close> and \<^verbatim>\<open>sorted(list(saved_keys - current_keys))\<close>\<close>

definition new_keys_of :: "snapshot \<Rightarrow> snapshot \<Rightarrow> string list" where
  "new_keys_of saved current = sorted_list_of_set (set (map fst current) - set (map fst saved))"

definition removed_keys_of :: "snapshot \<Rightarrow> snapshot \<Rightarrow> string list" where
  "removed_keys_of saved current = sorted_list_of_set (set (map fst saved) - set (map fst current))"

text \<open>
  \<^verbatim>\<open>build_market_url\<close>: the link is made of the slug and the group identifier, or is the
  text \<^verbatim>\<open>(URL unavailable)\<close> when one of them is missing or empty.
\<close>

datatype link = UrlUnavailable | MarketUrl jvalue jvalue

definition build_market_url :: "group \<Rightarrow> link" where
  "build_market_url m =
     (let slug = dict_get m ''slug'';
          mid = dict_get m ''multi_question_id''
      in if \<not> jtruthy slug \<or> \<not> jtruthy mid then UrlUnavailable else MarketUrl slug mid)"

text \<open>
  The message sent for a new market, as the values its text is formatted from: header,
  display end time, first-detected timestamp, one line (identifier, title) per option, link.
\<close>

record alert =
  alert_match :: jvalue
  alert_end_time :: jvalue
  alert_first_detected :: jvalue
  alert_options :: "(string \<times> string) list"
  alert_link :: link

definition new_match_alert :: "group \<Rightarrow> alert" where
  "new_match_alert m =
     \<lparr>alert_match = dict_get m ''match_header'',
      alert_end_time = dict_get m ''questionEndTime_iso'',
      alert_first_detected = dict_get m ''first_detected_at'',
      alert_options =
        (case dict_get_default m ''options'' (JOptions []) of
           JOptions os \<Rightarrow> map (\<lambda>opt. (questionId opt, title opt)) os
         | _ \<Rightarrow> []),
      alert_link = build_market_url m\<rparr>"

text \<open>
  The loop over the new keys: \<^verbatim>\<open>m = current[k]; m["first_detected_at"] = now_str\<close>, then
  the alert built from \<open>m\<close>. A failed send is logged and the loop goes on, so the state
  holds every alert handed to the notifier.
\<close>

definition announce_new :: "string \<Rightarrow> string list \<Rightarrow> snapshot \<Rightarrow> snapshot \<times> alert list" where
  "announce_new now_str ks current =
     fold (\<lambda>k (cur, sent).
             let cur' = AList.map_entry k (AList.update ''first_detected_at'' (JStr now_str)) cur;
                 m = (case map_of cur' k of None \<Rightarrow> [] | Some g \<Rightarrow> g)
             in (cur', sent @ [new_match_alert m]))
          ks (current, [])"

text \<open>
  A line appended to the removal log: the cron script writes the key with the JSON text of
  the old record, the watcher's validator writes the key with a reason.
\<close>

datatype removal_entry = RemovedData string group | RemovedReason string string

record run_result =
  merged :: snapshot
  new_keys :: "string list"
  removed_keys :: "string list"
  alerts :: "alert list"
  removal_log :: "removal_entry list"

text \<open>
  \<^verbatim>\<open>run_once\<close> of the cron script after the fetch: \<open>merged\<close> is the snapshot handed to
  \<^verbatim>\<open>save_matches\<close>, \<open>removal_log\<close> the entries handed to \<^verbatim>\<open>append_removed_log\<close>, each
  with \<^verbatim>\<open>saved.get(k, {})\<close>.
\<close>

definition run_once_reconcile :: "snapshot \<Rightarrow> snapshot \<Rightarrow> string \<Rightarrow> run_result" where
  "run_once_reconcile saved current now_str =
     (let new = new_keys_of saved current;
          removed = removed_keys_of saved current;
          current = carry_over saved current;
          (current, sent) = announce_new now_str new current
      in \<lparr>merged = current,
          new_keys = new,
          removed_keys = removed,
          alerts = sent,
          removal_log =
            map (\<lambda>k. RemovedData k (case map_of saved k of None \<Rightarrow> [] | Some g \<Rightarrow> g)) removed\<rparr>)"

text \<open>
  \<^verbatim>\<open>run_once\<close>: \<open>saved\<close> is what \<^verbatim>\<open>load_matches\<close> returned; a failed build ends the run
  with nothing saved, sent or logged.
\<close>

definition run_once ::
  "(int \<Rightarrow> string) \<Rightarrow> bool \<Rightarrow> snapshot \<Rightarrow> py_error + question list \<Rightarrow> int \<Rightarrow> local_time
     \<Rightarrow> py_error + run_result" where
  "run_once utc_iso require_approved saved fetched now d =
     (case build_current_matches_snapshot utc_iso fetched now require_approved of
        Inl e \<Rightarrow> Inl e
      | Inr current \<Rightarrow> Inr (run_once_reconcile saved current (now_iso d)))"

record watcher_result =
  w_current :: snapshot
  w_new_keys :: "string list"
  w_alerts :: "alert list"
  w_heartbeat :: bool

text \<open>
  One pass of \<^verbatim>\<open>watcher_loop\<close> after the build: \<open>w_current\<close> is the snapshot handed to
  \<^verbatim>\<open>save_snapshot\<close>, which then becomes \<^verbatim>\<open>saved\<close>. The assignment \<^verbatim>\<open>saved[k] = m\<close> in
  the loop is not modelled: \<^verbatim>\<open>saved\<close> is rebound to \<^verbatim>\<open>current\<close> before it is read again.
  The key sets are taken before the carry-over, as in the source. The watcher computes no
  removed keys and writes no removal log here.
\<close>

definition watcher_reconcile :: "bool \<Rightarrow> snapshot \<Rightarrow> snapshot \<Rightarrow> string \<Rightarrow> watcher_result" where
  "watcher_reconcile heartbeat_enabled saved current now_str =
     (let new = new_keys_of saved current;
          current = carry_over saved current;
          (current, sent) = announce_new now_str new current
      in \<lparr>w_current = current,
          w_new_keys = new,
          w_alerts = sent,
          w_heartbeat = (new = [] \<and> heartbeat_enabled)\<rparr>)"

subsection \<open>The periodic validator\<close>

text \<open>The number a value counts as in a comparison: \<^verbatim>\<open>True == 1\<close> and \<^verbatim>\<open>False == 0\<close>.\<close>

fun num_of :: "jvalue \<Rightarrow> int option" where
  "num_of (JBool b) = Some (if b then 1 else 0)"
| "num_of (JInt n) = Some n"
| "num_of JNull = None"
| "num_of (JStr s) = None"
| "num_of (JOptions os) = None"

text \<open>\<^verbatim>\<open>a == b\<close> on stored values.\<close>

definition py_eq :: "jvalue \<Rightarrow> jvalue \<Rightarrow> bool" where
  "py_eq a b =
     (case (num_of a, num_of b) of
        (Some x, Some y) \<Rightarrow> x = y
      | (None, None) \<Rightarrow> a = b
      | _ \<Rightarrow> False)"

text \<open>
  \<^verbatim>\<open>json.dumps(a, sort_keys=True) != json.dumps(b, sort_keys=True)\<close>: the serialisation
  with sorted keys is one-to-one on these values (it writes \<^verbatim>\<open>true\<close> and \<^verbatim>\<open>1\<close>
  differently), so the texts differ exactly when the values do.
\<close>

definition json_dumps_differ :: "jvalue \<Rightarrow> jvalue \<Rightarrow> bool" where
  "json_dumps_differ a b = (a \<noteq> b)"

text \<open>
  The body of the loop \<^verbatim>\<open>for key in list(saved.keys())\<close> of \<^verbatim>\<open>validate_snapshot\<close>, on
  the state \<open>(saved, removed, updated)\<close>. \<^verbatim>\<open>saved_info\<close> is the group stored under the key,
  so writing to it writes to \<^verbatim>\<open>saved\<close>.
\<close>

definition validate_step ::
  "snapshot \<Rightarrow> string \<Rightarrow> snapshot \<times> removal_entry list \<times> string list
     \<Rightarrow> snapshot \<times> removal_entry list \<times> string list" where
  "validate_step live key st =
     (case st of (saved, removed, updated) \<Rightarrow>
        (case map_of live key of
           None \<Rightarrow>
             (AList.delete key saved,
              removed @ [RemovedReason key ''no longer approved/present''],
              updated)
         | Some live_info \<Rightarrow>
             (let saved_info = (case map_of saved key of None \<Rightarrow> [] | Some g \<Rightarrow> g);
                  end_changed =
                    (\<not> py_eq (dict_get saved_info ''questionEndTime'')
                              (dict_get live_info ''questionEndTime''));
                  saved_info =
                    (if end_changed
                     then AList.update ''questionEndTime_iso'' (dict_get live_info ''questionEndTime_iso'')
                            (AList.update ''questionEndTime'' (dict_get live_info ''questionEndTime'')
                               saved_info)
                     else saved_info);
                  options_changed =
                    json_dumps_differ (dict_get_default saved_info ''options'' (JOptions []))
                                      (dict_get_default live_info ''options'' (JOptions []));
                  saved_info =
                    (if options_changed
                     then AList.update ''options''
                            (dict_get_default live_info ''options'' (JOptions [])) saved_info
                     else saved_info);
                  approved_changed =
                    (\<not> py_eq (dict_get saved_info ''is_approved'')
                              (dict_get live_info ''is_approved''));
                  saved_info =
                    (if approved_changed
                     then AList.update ''is_approved'' (dict_get live_info ''is_approved'') saved_info
                     else saved_info)
              in if end_changed \<or> options_changed \<or> approved_changed
                 then (AList.update key saved_info saved, removed, updated @ [key])
                 else (saved, removed, updated))))"

text \<open>The key of a removal-log entry.\<close>

fun entry_key :: "removal_entry \<Rightarrow> string" where
  "entry_key (RemovedData k g) = k"
| "entry_key (RemovedReason k r) = k"

text \<open>The text of the validation summary.\<close>

definition validation_summary :: "removal_entry list \<Rightarrow> string list \<Rightarrow> string" where
  "validation_summary removed updated =
     ''*Validation summary*'' @ [CHR 0x0A] @
     py_join [CHR 0x0A]
       ((if removed \<noteq> []
         then (''Removed '' @ show_int (int (length removed)) @ '' markets no longer approved:'')
              # map (\<lambda>r. ''- '' @ entry_key r) (take 20 removed)
         else []) @
        (if updated \<noteq> []
         then (''Updated '' @ show_int (int (length updated)) @ '' markets with fresh data:'')
              # map (\<lambda>u. ''- '' @ u) (take 20 updated)
         else []))"

record validation_result =
  v_saved :: snapshot
  v_removal_log :: "removal_entry list"
  v_updated :: "string list"
  v_persisted :: "snapshot option"
  v_summary :: "string option"
  v_error :: "py_error option"

text \<open>
  \<^verbatim>\<open>validate_snapshot\<close>: \<open>v_saved\<close> is the value returned, \<open>v_removal_log\<close> what was handed
  to \<^verbatim>\<open>append_removed_log\<close>, \<open>v_persisted\<close> what was handed to \<^verbatim>\<open>save_snapshot\<close>,
  \<open>v_summary\<close> the summary logged and sent, \<open>v_error\<close> the exception of a failed build,
  which is logged and not raised. The watcher's \<^verbatim>\<open>REQUIRE_APPROVED\<close> is the constant
  \<^verbatim>\<open>True\<close>.
\<close>

definition validate_snapshot ::
  "(int \<Rightarrow> string) \<Rightarrow> snapshot \<Rightarrow> py_error + question list \<Rightarrow> int \<Rightarrow> validation_result" where
  "validate_snapshot utc_iso saved fetched now =
     (if saved = []
      then \<lparr>v_saved = [], v_removal_log = [], v_updated = [], v_persisted = None,
            v_summary = None, v_error = None\<rparr>
      else
        (case build_live_snapshot utc_iso fetched now True of
           Inl e \<Rightarrow>
             \<lparr>v_saved = saved, v_removal_log = [], v_updated = [], v_persisted = None,
              v_summary = None, v_error = Some e\<rparr>
         | Inr live \<Rightarrow>
             (case fold (validate_step live) (map fst saved) (saved, [], []) of
                (saved', removed, updated) \<Rightarrow>
                  \<lparr>v_saved = saved',
                   v_removal_log = removed,
                   v_updated = updated,
                   v_persisted = (if removed \<noteq> [] \<or> updated \<noteq> [] then Some saved' else None),
                   v_summary = (if removed \<noteq> [] \<or> updated \<noteq> []
                                then Some (validation_summary removed updated) else None),
                   v_error = None\<rparr>)))"

subsection \<open>One pass of the watcher loop\<close>

record watcher_state =
  saved_snapshot :: snapshot
  last_validation :: int

text \<open>
  The body of \<^verbatim>\<open>while True\<close> in \<^verbatim>\<open>watcher_loop\<close>, up to the sleep. A failed build is
  caught by the enclosing \<^verbatim>\<open>try\<close> and leaves the state as it was. \<open>clock\<close> is
  \<^verbatim>\<open>time.time()\<close> in whole seconds; \<open>vfetched\<close> and \<open>vnow\<close> are the fetch and the clock
  of the validation, when it runs.
\<close>

definition watcher_iteration ::
  "(int \<Rightarrow> string) \<Rightarrow> bool \<Rightarrow> int \<Rightarrow> watcher_state \<Rightarrow> py_error + question list \<Rightarrow> int
     \<Rightarrow> local_time \<Rightarrow> int \<Rightarrow> py_error + question list \<Rightarrow> int \<Rightarrow> watcher_state" where
  "watcher_iteration utc_iso heartbeat_enabled interval st fetched now d clock vfetched vnow =
     (case build_live_snapshot utc_iso fetched now True of
        Inl e \<Rightarrow> st
      | Inr current \<Rightarrow>
          (let r = watcher_reconcile heartbeat_enabled (saved_snapshot st) current (now_iso d);
               saved = w_current r
           in if interval > 0 \<and> clock - last_validation st \<ge> interval
              then \<lparr>saved_snapshot = v_saved (validate_snapshot utc_iso saved vfetched vnow),
                    last_validation = clock\<rparr>
              else \<lparr>saved_snapshot = saved, last_validation = last_validation st\<rparr>))"

subsection \<open>The vocabulary of the claims\<close>

text \<open>The text of a header field of a record, empty when the field is missing.\<close>

definition header_text :: "(metadata \<Rightarrow> scalar) \<Rightarrow> question \<Rightarrow> string" where
  "header_text field q = py_str (py_or (bm_get field q) (SStr []))"

text \<open>The category is a string equal to \<^verbatim>\<open>football\<close> up to case.\<close>

definition category_is_football :: "question \<Rightarrow> bool" where
  "category_is_football q =
     (case bm_get category q of SStr s \<Rightarrow> py_lower s = ''football'' | _ \<Rightarrow> False)"

text \<open>The end-time value parses as an integer strictly greater than \<open>now\<close>.\<close>

definition end_time_after :: "question \<Rightarrow> int \<Rightarrow> bool" where
  "end_time_after q now =
     (case py_int (bm_get questionEndTime q) of Inl e \<Rightarrow> False | Inr n \<Rightarrow> now < n)"

text \<open>
  The filter as the specification words it: the phrase is looked for in the concatenation
  of the three header fields.
\<close>

definition filter_as_claimed :: "question \<Rightarrow> int \<Rightarrow> bool" where
  "filter_as_claimed q now =
     (category_is_football q \<and>
      py_in ''match result''
        (py_lower (header_text questionHeader q @ header_text parentQuestionHeader q @
                   header_text questionHeaderExpanded q)) \<and>
      isSettled q \<noteq> SBool True \<and>
      end_time_after q now)"

text \<open>The same with the three header fields joined by single spaces.\<close>

definition filter_joined :: "question \<Rightarrow> int \<Rightarrow> bool" where
  "filter_joined q now =
     (category_is_football q \<and>
      py_in ''match result''
        (py_lower (py_join '' '' [header_text questionHeader q, header_text parentQuestionHeader q,
                                  header_text questionHeaderExpanded q])) \<and>
      isSettled q \<noteq> SBool True \<and>
      end_time_after q now)"

text \<open>What the carry-over does to the group stored under key \<open>k\<close> of the fresh snapshot.\<close>

definition carried :: "snapshot \<Rightarrow> string \<Rightarrow> group \<Rightarrow> group" where
  "carried saved k g =
     (case map_of saved k of
        None \<Rightarrow> g
      | Some old \<Rightarrow>
          (case map_of old ''first_detected_at'' of
             None \<Rightarrow> g
           | Some v \<Rightarrow> AList.update ''first_detected_at'' v g))"

text \<open>
  The key under which the normalizer groups a record: the stripped parent header, when the
  parent header and the parent identifier are both present and not empty.
\<close>

definition group_key :: "question \<Rightarrow> string option" where
  "group_key q =
     (let parent_header = py_or (bm_get parentQuestionHeader q) (SStr []);
          parent_id = bm_get parentQuestionId q
      in if \<not> truthy parent_header \<or> \<not> truthy parent_id then None
         else (case parent_header of SStr header \<Rightarrow> Some (py_strip header) | _ \<Rightarrow> None))"

text \<open>The group under key \<open>k\<close> exists and its \<^verbatim>\<open>is_approved\<close> is \<^verbatim>\<open>True\<close>.\<close>

definition approved :: "snapshot \<Rightarrow> string \<Rightarrow> bool" where
  "approved groups k =
     (case map_of groups k of
        None \<Rightarrow> False
      | Some g \<Rightarrow> map_of g ''is_approved'' = Some (JBool True))"

text \<open>
  A group as the normalizer leaves it: the seven fields of a fresh group, the options a list,
  and \<^verbatim>\<open>is_approved\<close> true exactly when one of the options is tradable.
\<close>

definition built_group :: "group \<Rightarrow> bool" where
  "built_group g =
     (map fst g = [''match_header'', ''slug'', ''multi_question_id'', ''options'',
                   ''questionEndTime'', ''questionEndTime_iso'', ''is_approved''] \<and>
      (case map_of g ''options'' of
         Some (JOptions os) \<Rightarrow>
           map_of g ''is_approved'' = Some (JBool (\<exists>opt\<in>set os. option_is_tradable opt))
       | _ \<Rightarrow> False))"

definition built_snapshot :: "snapshot \<Rightarrow> bool" where
  "built_snapshot groups =
     (distinct (map fst groups) \<and> (\<forall>(k, g)\<in>set groups. built_group g))"

text \<open>The group created for the first record of a key, and the option appended for a record.\<close>

definition fresh_group :: "(int \<Rightarrow> string) \<Rightarrow> question \<Rightarrow> string \<Rightarrow> group" where
  "fresh_group utc_iso q header =
     (let end_ts = (case py_int (py_or (bm_get questionEndTime q) (SInt 0)) of
                      Inl e \<Rightarrow> JNull
                    | Inr n \<Rightarrow> JInt n)
      in [(''match_header'', JStr header),
          (''slug'', JStr (slugify header)),
          (''multi_question_id'', JStr (py_str (bm_get parentQuestionId q))),
          (''options'', JOptions []),
          (''questionEndTime'', end_ts),
          (''questionEndTime_iso'',
             JStr (case end_ts of JInt n \<Rightarrow> if n \<noteq> 0 then utc_iso n else [] | _ \<Rightarrow> [])),
          (''is_approved'', JBool False)])"

definition option_of :: "question \<Rightarrow> string \<Rightarrow> market_option" where
  "option_of q option_title =
     \<lparr>questionId = py_str (question.questionId q),
      title = option_title,
      yesTokenMarketId =
        (if truthy (question.yesTokenMarketId q) then py_str (question.yesTokenMarketId q) else []),
      noTokenMarketId =
        (if truthy (question.noTokenMarketId q) then py_str (question.noTokenMarketId q) else []),
      option_is_tradable = tradable (question.yesTokenMarketId q) (question.noTokenMarketId q)\<rparr>"

text \<open>
  The three comparisons of the validator between a stored group and the fresh group of the
  same key, and the stored group after the validator has refreshed it.
\<close>

definition end_differs :: "group \<Rightarrow> group \<Rightarrow> bool" where
  "end_differs s l = (\<not> py_eq (dict_get s ''questionEndTime'') (dict_get l ''questionEndTime''))"

definition options_differ :: "group \<Rightarrow> group \<Rightarrow> bool" where
  "options_differ s l =
     json_dumps_differ (dict_get_default s ''options'' (JOptions []))
                       (dict_get_default l ''options'' (JOptions []))"

definition approved_differs :: "group \<Rightarrow> group \<Rightarrow> bool" where
  "approved_differs s l = (\<not> py_eq (dict_get s ''is_approved'') (dict_get l ''is_approved''))"

definition refreshed :: "group \<Rightarrow> group \<Rightarrow> group" where
  "refreshed s l =
     (let s1 = (if end_differs s l
                then AList.update ''questionEndTime_iso'' (dict_get l ''questionEndTime_iso'')
                       (AList.update ''questionEndTime'' (dict_get l ''questionEndTime'') s)
                else s);
          s2 = (if options_differ s l
                then AList.update ''options'' (dict_get_default l ''options'' (JOptions [])) s1
                else s1)
      in if approved_differs s l
         then AList.update ''is_approved'' (dict_get l ''is_approved'') s2
         else s2)"

text \<open>
  What the validator's loop has done about one key: the group stored under it, the removal
  entries written for it, and whether it was recorded as updated.
\<close>

definition key_view ::
  "string \<Rightarrow> snapshot \<times> removal_entry list \<times> string list
     \<Rightarrow> group option \<times> removal_entry list \<times> bool" where
  "key_view k st =
     (case st of (saved, removed, updated) \<Rightarrow>
        (map_of saved k, filter (\<lambda>e. entry_key e = k) removed, k \<in> set updated))"

subsection \<open>Sample data\<close>

text \<open>A formatter of epoch seconds that answers the empty text, as the source's does on failure.\<close>

definition iso_unavailable :: "int \<Rightarrow> string" where
  "iso_unavailable n = []"

text \<open>A football record whose phrase is split over two header fields.\<close>

definition split_phrase_question :: question where
  "split_phrase_question =
     \<lparr>question.questionId = SStr ''q1'',
      isSettled = SBool False,
      question.yesTokenMarketId = SStr ''11'',
      question.noTokenMarketId = SStr ''12'',
      blockchainMetadata =
        Some \<lparr>category = SStr ''Football'',
              questionHeader = SStr ''Match'',
              parentQuestionHeader = SStr ''Result: Alpha vs Beta'',
              questionHeaderExpanded = SNull,
              questionEndTime = SInt 200,
              parentQuestionId = SInt 7\<rparr>\<rparr>"

text \<open>
  A football record whose end time is the digits \<^verbatim>\<open>300\<close> after the separator U+001C,
  which \<^verbatim>\<open>int\<close> does not accept.
\<close>

definition separator_question :: question where
  "separator_question =
     \<lparr>question.questionId = SStr ''q2'',
      isSettled = SBool False,
      question.yesTokenMarketId = SStr ''11'',
      question.noTokenMarketId = SStr ''12'',
      blockchainMetadata =
        Some \<lparr>category = SStr ''football'',
              questionHeader = SStr ''Match Result'',
              parentQuestionHeader = SStr ''Alpha vs Beta'',
              questionHeaderExpanded = SNull,
              questionEndTime = SStr (CHR 0x1C # ''300''),
              parentQuestionId = SInt 7\<rparr>\<rparr>"

text \<open>A tradable football record of the group \<^verbatim>\<open>Alpha vs Beta\<close>, and an untradable one.\<close>

definition alpha_question :: question where
  "alpha_question =
     \<lparr>question.questionId = SInt 41,
      isSettled = SBool False,
      question.yesTokenMarketId = SStr ''11'',
      question.noTokenMarketId = SStr ''12'',
      blockchainMetadata =
        Some \<lparr>category = SStr ''Football'',
              questionHeader = SStr ''Match Result'',
              parentQuestionHeader = SStr ''Alpha vs Beta'',
              questionHeaderExpanded = SStr ''Alpha wins'',
              questionEndTime = SStr ''200'',
              parentQuestionId = SInt 7\<rparr>\<rparr>"

definition draw_question :: question where
  "draw_question =
     \<lparr>question.questionId = SInt 42,
      isSettled = SBool False,
      question.yesTokenMarketId = SStr ''0'',
      question.noTokenMarketId = SNull,
      blockchainMetadata =
        Some \<lparr>category = SStr ''football'',
              questionHeader = SStr ''Match Result'',
              parentQuestionHeader = SStr ''Alpha vs Beta'',
              questionHeaderExpanded = SStr ''Draw'',
              questionEndTime = SInt 200,
              parentQuestionId = SInt 7\<rparr>\<rparr>"

text \<open>The group the normalizer builds from \<open>alpha_question\<close> alone.\<close>

definition alpha_group :: group where
  "alpha_group =
     [(''match_header'', JStr ''Alpha vs Beta''),
      (''slug'', JStr ''alpha-vs-beta''),
      (''multi_question_id'', JStr ''7''),
      (''options'',
         JOptions [\<lparr>questionId = ''41'', title = ''Alpha wins'', yesTokenMarketId = ''11'',
                    noTokenMarketId = ''12'', option_is_tradable = True\<rparr>]),
      (''questionEndTime'', JInt 200),
      (''questionEndTime_iso'', JStr []),
      (''is_approved'', JBool True)]"

text \<open>A stored group with a timestamp, and one read from a file that lacks it.\<close>

definition gamma_group :: group where
  "gamma_group =
     [(''match_header'', JStr ''Gamma vs Delta''),
      (''slug'', JStr ''gamma-vs-delta''),
      (''multi_question_id'', JStr ''9''),
      (''options'', JOptions []),
      (''questionEndTime'', JInt 100),
      (''questionEndTime_iso'', JStr []),
      (''is_approved'', JBool True),
      (''first_detected_at'', JStr ''2025-01-01 00:00:00'')]"

definition stored_alpha_group :: group where
  "stored_alpha_group =
     [(''match_header'', JStr ''Alpha vs Beta''),
      (''questionEndTime'', JInt 100),
      (''is_approved'', JBool True),
      (''first_detected_at'', JStr ''2025-01-01 00:00:00'')]"

definition undated_alpha_group :: group where
  "undated_alpha_group =
     [(''match_header'', JStr ''Alpha vs Beta''),
      (''questionEndTime'', JInt 200)]"

definition noon :: local_time where
  "noon = \<lparr>year = 2026, month = 3, day = 7, hour = 12, minute = 0, second = 5\<rparr>"

section \<open>Properties\<close>

subsection \<open>Slugs\<close>

lemma space_not_alnum: "is_space c \<Longrightarrow> \<not> is_lower_alnum c"
  unfolding is_space_def is_lower_alnum_def is_digit_def
  by (auto simp: less_eq_char_def)

lemma hyphen_not_alnum: "\<not> is_lower_alnum CHR ''-''"
  by (simp add: is_lower_alnum_def is_digit_def less_eq_char_def)

lemma colon_not_alnum: "\<not> is_lower_alnum CHR '':''"
  by (simp add: is_lower_alnum_def is_digit_def less_eq_char_def)

text \<open>Replacing runs after a character map is replacing the runs of the preimage class.\<close>

lemma sub_runs_map:
  assumes "\<And>c. P (f c) \<longleftrightarrow> Q c" and "\<And>c. \<not> Q c \<Longrightarrow> f c = c"
  shows "re_sub_runs P r (map f s) = re_sub_runs Q r s"
proof (induction "length s" arbitrary: s rule: less_induct)
  case less
  show ?case
  proof (cases s)
    case Nil
    then show ?thesis by simp
  next
    case (Cons c cs)
    have dw: "dropWhile P (map f cs) = map f (dropWhile Q cs)"
      by (induction cs) (simp_all add: assms(1))
    have le: "length (dropWhile Q cs) < length s"
      using Cons by (simp add: le_imp_less_Suc length_dropWhile_le)
    show ?thesis
    proof (cases "Q c")
      case True
      then show ?thesis using less[OF le] Cons by (simp add: assms(1) dw)
    next
      case False
      then have "f c = c" and "\<not> P c"
        using assms(1)[of c] assms(2)[of c] by simp_all
      then show ?thesis using False less[of cs] Cons by simp
    qed
  qed
qed

lemma sub_runs_hd:
  "Q r \<Longrightarrow> dropWhile (\<lambda>c. c = r) (re_sub_runs Q r s) = re_sub_runs Q r (dropWhile Q s)"
proof (induction Q r s rule: re_sub_runs.induct)
  case (1 Q r)
  then show ?case by simp
next
  case (2 Q r c cs)
  show ?case
  proof (cases "Q c")
    case True
    have "dropWhile (\<lambda>c. c = r) (re_sub_runs Q r (dropWhile Q cs)) = re_sub_runs Q r (dropWhile Q cs)"
      using 2(1)[OF True 2(3)] by simp
    then show ?thesis using True by simp
  next
    case False
    with 2(3) have "c \<noteq> r" by auto
    then show ?thesis using False by simp
  qed
qed

text \<open>After the runs of a class containing \<open>r\<close> are replaced, no two \<open>r\<close> are adjacent.\<close>

lemma sub_runs_idem:
  "Q r \<Longrightarrow> re_sub_runs (\<lambda>c. c = r) r (re_sub_runs Q r s) = re_sub_runs Q r s"
proof (induction Q r s rule: re_sub_runs.induct)
  case (1 Q r)
  then show ?case by simp
next
  case (2 Q r c cs)
  show ?case
  proof (cases "Q c")
    case True
    have "dropWhile (\<lambda>c. c = r) (re_sub_runs Q r (dropWhile Q cs)) = re_sub_runs Q r (dropWhile Q cs)"
      using sub_runs_hd[where Q = Q and r = r and s = "dropWhile Q cs"] 2(3) by simp
    then show ?thesis using True 2(1)[OF True 2(3)] by simp
  next
    case False
    with 2(3) have "c \<noteq> r" by auto
    then show ?thesis using False 2(2)[OF False 2(3)] by simp
  qed
qed

lemma sub_runs_all:
  "\<forall>c\<in>set s. Q c \<Longrightarrow> re_sub_runs Q r s = (if s = [] then [] else [r])"
proof (cases s)
  case Nil
  then show ?thesis by simp
next
  case (Cons c cs)
  assume "\<forall>c\<in>set s. Q c"
  then have c: "Q c" and dw: "dropWhile Q cs = []" using Cons by simp_all
  show ?thesis unfolding Cons by (simp add: c dw)
qed

lemma sub_runs_append:
  "\<not> Q c \<Longrightarrow> re_sub_runs Q r (xs @ c # ys) = re_sub_runs Q r xs @ c # re_sub_runs Q r ys"
proof (induction Q r xs rule: re_sub_runs.induct)
  case (1 Q r)
  then show ?case by simp
next
  case (2 Q r x xs)
  show ?case
  proof (cases "Q x")
    case True
    then show ?thesis using 2(1)[OF True 2(3)] 2(3) by (simp add: dropWhile_append3)
  next
    case False
    then show ?thesis using 2(2)[OF False 2(3)] by simp
  qed
qed

lemma sub_runs_rev: "re_sub_runs Q r (rev s) = rev (re_sub_runs Q r s)"
proof (induction "length s" arbitrary: s rule: less_induct)
  case less
  show ?case
  proof (cases "\<forall>c\<in>set s. Q c")
    case True
    then show ?thesis by (simp add: sub_runs_all)
  next
    case False
    then obtain c where "c \<in> set s" "\<not> Q c" by blast
    then obtain xs ys where s: "s = xs @ c # ys" by (meson split_list)
    have "re_sub_runs Q r (rev xs) = rev (re_sub_runs Q r xs)"
      and "re_sub_runs Q r (rev ys) = rev (re_sub_runs Q r ys)"
      using less[of xs] less[of ys] s by simp_all
    then show ?thesis using \<open>\<not> Q c\<close> by (simp add: s sub_runs_append)
  qed
qed

lemma sub_runs_strip:
  assumes "Q r"
  shows "strip_chars (\<lambda>c. c = r) (re_sub_runs Q r s) = re_sub_runs Q r (strip_chars Q s)"
proof -
  have hd: "dropWhile (\<lambda>c. c = r) (re_sub_runs Q r t) = re_sub_runs Q r (dropWhile Q t)" for t
    using sub_runs_hd[where Q = Q and r = r and s = t] assms by simp
  have "dropWhile (\<lambda>c. c = r) (rev (re_sub_runs Q r (dropWhile Q s)))
      = rev (re_sub_runs Q r (rev (dropWhile Q (rev (dropWhile Q s)))))"
    using hd[of "rev (dropWhile Q s)"] by (simp add: sub_runs_rev)
  then show ?thesis
    by (simp add: strip_chars_def rstrip_chars_def hd)
qed

lemma rstrip_Nil: "rstrip_chars P [] = []"
  by (simp add: rstrip_chars_def)

lemma rstrip_Cons:
  "rstrip_chars P (x # xs)
     = (if rstrip_chars P xs = [] \<and> P x then [] else x # rstrip_chars P xs)"
  by (simp add: rstrip_chars_def dropWhile_append)

lemma rstrip_empty_dropWhile:
  "rstrip_chars P' xs = [] \<Longrightarrow> rstrip_chars P' (dropWhile P xs) = []"
  by (auto simp: rstrip_chars_def dest: set_dropWhileD)

lemma lstrip_rstrip_commute:
  "dropWhile P (rstrip_chars P' s) = rstrip_chars P' (dropWhile P s)"
proof (induction s)
  case Nil
  then show ?case by (simp add: rstrip_Nil)
next
  case (Cons x xs)
  show ?case
  proof (cases "rstrip_chars P' xs = [] \<and> P' x")
    case True
    then show ?thesis
      by (simp add: rstrip_Cons rstrip_empty_dropWhile)
  next
    case False
    then show ?thesis using Cons.IH by (auto simp: rstrip_Cons)
  qed
qed

text \<open>Stripping a class first removes nothing that stripping a larger class would keep.\<close>

lemma strip_chars_mono:
  assumes "\<And>c. W c \<Longrightarrow> Q c"
  shows "strip_chars Q (strip_chars W s) = strip_chars Q s"
proof -
  have dd: "dropWhile Q (dropWhile W t) = dropWhile Q t" for t
    by (induction t) (auto simp: assms)
  have rr: "rstrip_chars Q (rstrip_chars W t) = rstrip_chars Q t" for t
    using dd[of "rev t"] by (simp add: rstrip_chars_def)
  show ?thesis
    by (simp add: strip_chars_def lstrip_rstrip_commute[of Q W] dd rr)
qed

lemma slugify_eq_spec: "slugify h = slug_spec h"
proof -
  let ?N = "\<lambda>c. \<not> is_lower_alnum c"
  let ?f = "(\<lambda>c. if \<not> (is_lower_alnum c \<or> is_space c) then CHR '' '' else c)
              \<circ> (\<lambda>c. if c = CHR '':'' then CHR '' '' else c)"
  have sp: "is_space CHR '' ''" by (simp add: is_space_def)
  have f1: "is_space (?f c) \<longleftrightarrow> ?N c" for c
    using space_not_alnum[of c] sp colon_not_alnum by auto
  have f2: "\<not> ?N c \<Longrightarrow> ?f c = c" for c
    using colon_not_alnum by auto
  have a: "re_sub_runs is_space CHR ''-'' (map ?f t) = re_sub_runs ?N CHR ''-'' t" for t
    by (rule sub_runs_map[of is_space ?f ?N, OF f1 f2])
  have b: "re_sub_runs (\<lambda>c. c = CHR ''-'') CHR ''-''
             (map (\<lambda>c. if is_lower_alnum c then c else CHR ''-'') t)
         = re_sub_runs ?N CHR ''-'' t" for t
    by (rule sub_runs_map) (use hyphen_not_alnum in auto)
  have lhs: "slugify h
         = re_sub_runs ?N CHR ''-'' (strip_chars ?N (strip_chars is_space (py_lower h)))"
    using a[of "strip_chars is_space (py_lower h)"]
    by (simp add: slugify_def py_strip_def py_replace_char_def re_sub_class_def Let_def
        sub_runs_idem[where Q = ?N, OF hyphen_not_alnum]
        sub_runs_strip[where Q = ?N, OF hyphen_not_alnum] comp_def)
  have rhs: "slug_spec h = re_sub_runs ?N CHR ''-'' (strip_chars ?N (py_lower h))"
    by (simp add: slug_spec_def b sub_runs_strip[where Q = ?N, OF hyphen_not_alnum])
  show ?thesis
    using strip_chars_mono[of is_space ?N "py_lower h"] space_not_alnum lhs rhs by auto
qed

lemma slugify_header_eq: "slugify_header h = slugify h"
  by (simp add: slugify_header_def slugify_def)

text \<open>
  Claim C7. For every header, the slug computed by \<^verbatim>\<open>slugify\<close> (and by the cron script's
  \<^verbatim>\<open>slugify_header\<close>) is the lowercase form of the header with every character other
  than a lowercase alphanumeric replaced by a hyphen, runs of hyphens collapsed and leading
  and trailing hyphens trimmed; the header \<^verbatim>\<open>Team A: Team B\<close> yields \<^verbatim>\<open>team-a-team-b\<close>.
\<close>

theorem slug_is_spec:
  "slugify h = slug_spec h \<and> slugify_header h = slug_spec h \<and>
   slugify ''Team A: Team B'' = ''team-a-team-b'' \<and>
   slugify_header ''Team A: Team B'' = ''team-a-team-b''"
proof -
  have ex: "slugify ''Team A: Team B'' = ''team-a-team-b''"
    by code_simp
  show ?thesis
    using ex by (simp add: slugify_eq_spec slugify_header_eq)
qed

theorem slug_is_spec_witness:
  "slugify ''  Real Madrid -- vs. FC_Porto!  '' = ''real-madrid-vs-fc-porto'' \<and>
   slug_spec ''  Real Madrid -- vs. FC_Porto!  '' = ''real-madrid-vs-fc-porto''"
proof -
  have "slugify ''  Real Madrid -- vs. FC_Porto!  '' = ''real-madrid-vs-fc-porto''"
    by code_simp
  then show ?thesis
    using slug_is_spec[of "''  Real Madrid -- vs. FC_Porto!  ''"] by simp
qed

subsection \<open>The filter\<close>

lemma py_or_str_lower:
  "str_method py_lower (py_or c (SStr [])) = Inr ''football''
     \<longleftrightarrow> (case c of SStr s \<Rightarrow> py_lower s = ''football'' | _ \<Rightarrow> False)"
  by (cases c) (auto simp: py_or_def py_lower_def)

lemma parse_int_Nil: "parse_int [] = None"
  by (simp add: parse_int_def strip_chars_def rstrip_chars_def)

lemma end_time_default:
  "0 \<le> now \<Longrightarrow>
   (case py_int (py_or e (SInt 0)) of Inl x \<Rightarrow> False | Inr n \<Rightarrow> now < n)
     = (case py_int e of Inl x \<Rightarrow> False | Inr n \<Rightarrow> now < n)"
  by (cases e) (auto simp: py_or_def parse_int_Nil)

lemma filter_result:
  "is_upcoming_match_option q now = Inr True \<longleftrightarrow>
     str_method py_lower (py_or (bm_get category q) (SStr [])) = Inr ''football'' \<and>
     py_in ''match result''
       (py_lower (py_join '' '' [header_text questionHeader q, header_text parentQuestionHeader q,
                                 header_text questionHeaderExpanded q])) \<and>
     isSettled q \<noteq> SBool True \<and>
     (case py_int (py_or (bm_get questionEndTime q) (SInt 0)) of Inl x \<Rightarrow> False | Inr n \<Rightarrow> now < n)"
  unfolding is_upcoming_match_option_def header_text_def Let_def
  by (auto split: sum.splits)

lemma filter_iff_joined:
  "0 \<le> now \<Longrightarrow> is_upcoming_match_option q now = Inr True \<longleftrightarrow> filter_joined q now"
  by (simp add: filter_result filter_joined_def category_is_football_def end_time_after_def
      py_or_str_lower end_time_default)

text \<open>What \<^verbatim>\<open>int\<close> accepts of a string: its characters and the number of its digits.\<close>

lemma valid_digits_chars:
  "valid_digits b \<Longrightarrow> \<forall>c\<in>set b. is_digit c \<or> c = CHR ''_''"
  by (induction b rule: valid_digits.induct) (auto split: if_splits)

lemma set_dropWhile_cover: "set s \<subseteq> set (dropWhile P s) \<union> Collect P"
proof -
  have "set s = set (takeWhile P s) \<union> set (dropWhile P s)"
    by (metis set_append takeWhile_dropWhile_id)
  moreover have "set (takeWhile P s) \<subseteq> Collect P"
    by (auto dest: set_takeWhileD)
  ultimately show ?thesis by auto
qed

lemma set_strip_cover: "set s \<subseteq> set (strip_chars P s) \<union> Collect P"
proof -
  have "set (dropWhile P s) \<subseteq> set (rstrip_chars P (dropWhile P s)) \<union> Collect P"
    using set_dropWhile_cover[of "rev (dropWhile P s)" P] by (simp add: rstrip_chars_def)
  then show ?thesis
    using set_dropWhile_cover[of s P] unfolding strip_chars_def by blast
qed

lemma parse_int_chars:
  assumes "parse_int s = Some n"
  shows "\<forall>c\<in>set s. is_digit c \<or> c = CHR ''_'' \<or> c = CHR ''+'' \<or> c = CHR ''-'' \<or> int_space c"
proof -
  let ?t = "strip_chars int_space s"
  let ?body = "if ?t \<noteq> [] \<and> (hd ?t = CHR ''-'' \<or> hd ?t = CHR ''+'') then tl ?t else ?t"
  from assms have "valid_digits ?body"
    by (cases "?t \<noteq> [] \<and> (hd ?t = CHR ''-'' \<or> hd ?t = CHR ''+'')")
       (auto simp: parse_int_def Let_def split: if_splits)
  then have b: "\<forall>c\<in>set ?body. is_digit c \<or> c = CHR ''_''"
    by (rule valid_digits_chars)
  have t: "\<forall>c\<in>set ?t. is_digit c \<or> c = CHR ''_'' \<or> c = CHR ''+'' \<or> c = CHR ''-''"
  proof (cases ?t)
    case Nil
    then show ?thesis by simp
  next
    case (Cons x xs)
    then show ?thesis using b by (auto split: if_splits)
  qed
  show ?thesis
    using t set_strip_cover[of s int_space] by blast
qed

lemma filter_dropWhile_disjoint:
  "(\<And>c. P c \<Longrightarrow> \<not> Q c) \<Longrightarrow> filter Q (dropWhile P s) = filter Q s"
  by (induction s) auto

lemma filter_strip_disjoint:
  assumes "\<And>c. P c \<Longrightarrow> \<not> Q c"
  shows "filter Q (strip_chars P s) = filter Q s"
proof -
  have "filter Q (rstrip_chars P t) = filter Q t" for t
    using filter_dropWhile_disjoint[of P Q "rev t", OF assms]
    by (simp add: rstrip_chars_def rev_filter[symmetric])
  then show ?thesis
    by (simp add: strip_chars_def filter_dropWhile_disjoint[of P Q, OF assms])
qed

lemma int_space_not_digit: "int_space c \<Longrightarrow> \<not> is_digit c"
  unfolding int_space_def is_digit_def by (auto simp: less_eq_char_def)

lemma parse_int_digit_limit:
  assumes "parse_int s = Some n"
  shows "length (filter is_digit s) \<le> int_max_str_digits"
proof -
  let ?t = "strip_chars int_space s"
  let ?body = "if ?t \<noteq> [] \<and> (hd ?t = CHR ''-'' \<or> hd ?t = CHR ''+'') then tl ?t else ?t"
  from assms have l: "length (filter is_digit ?body) \<le> int_max_str_digits"
    by (cases "?t \<noteq> [] \<and> (hd ?t = CHR ''-'' \<or> hd ?t = CHR ''+'')")
       (auto simp: parse_int_def Let_def split: if_splits)
  have "filter is_digit ?body = filter is_digit ?t"
  proof (cases ?t)
    case Nil
    then show ?thesis by simp
  next
    case (Cons x xs)
    have "\<not> is_digit CHR ''-''" "\<not> is_digit CHR ''+''"
      by (simp_all add: is_digit_def less_eq_char_def)
    then show ?thesis using Cons by auto
  qed
  also have "\<dots> = filter is_digit s"
    by (rule filter_strip_disjoint) (rule int_space_not_digit)
  finally show ?thesis using l by simp
qed

lemma int_rejects_separator: "parse_int (CHR 0x1C # ''300'') = None"
  by code_simp

lemma int_rejects_trailing_separator: "parse_int (''300'' @ [CHR 0x1F]) = None"
  by code_simp

lemma int_accepts_padded: "parse_int (CHR 0xA0 # '' +1_000 '') = Some 1000"
  by code_simp

lemma basketball_excluded:
  "bm_get category q = SStr s \<Longrightarrow> py_lower s = ''basketball'' \<Longrightarrow>
   is_upcoming_match_option q now = Inr False"
  by (auto simp: is_upcoming_match_option_def py_or_def Let_def)

text \<open>
  Claim C4, amended. For a current time that is not negative, a raw record passes the
  filter (\<^verbatim>\<open>is_upcoming_match_option\<close>, and the cron script's
  \<^verbatim>\<open>looks_like_upcoming_match\<close>) if and only if its category equals \<^verbatim>\<open>football\<close> up to
  case, its three header fields joined by single spaces contain \<^verbatim>\<open>match result\<close> up to
  case, its settlement flag is not true, and its end-time value parses as an integer
  strictly greater than the current time. A record of category \<^verbatim>\<open>basketball\<close> is
  excluded, so is one whose end time is the current time or earlier, and one whose end time
  does not parse: in particular a string with a character other than a digit, an
  underscore, a sign or the white space \<^verbatim>\<open>int\<close> skips, and a string of more digits than
  the interpreter's limit.
\<close>

theorem filter_passes_iff_joined:
  assumes "0 \<le> now"
  shows "(is_upcoming_match_option q now = Inr True \<longleftrightarrow> filter_joined q now) \<and>
         (looks_like_upcoming_match q now = Inr True \<longleftrightarrow> filter_joined q now) \<and>
         (\<forall>s. bm_get category q = SStr s \<and> py_lower s = ''basketball''
              \<longrightarrow> is_upcoming_match_option q now = Inr False) \<and>
         (\<forall>n. py_int (bm_get questionEndTime q) = Inr n \<and> n \<le> now
              \<longrightarrow> is_upcoming_match_option q now \<noteq> Inr True) \<and>
         (\<forall>e. py_int (bm_get questionEndTime q) = Inl e
              \<longrightarrow> is_upcoming_match_option q now \<noteq> Inr True) \<and>
         (\<forall>s. bm_get questionEndTime q = SStr s \<and>
              (\<exists>c\<in>set s. \<not> (is_digit c \<or> c = CHR ''_'' \<or> c = CHR ''+'' \<or> c = CHR ''-'' \<or>
                              int_space c))
              \<longrightarrow> is_upcoming_match_option q now \<noteq> Inr True) \<and>
         (\<forall>s. bm_get questionEndTime q = SStr s \<and>
              int_max_str_digits < length (filter is_digit s)
              \<longrightarrow> is_upcoming_match_option q now \<noteq> Inr True)"
proof -
  have iff: "is_upcoming_match_option q now = Inr True \<longleftrightarrow> filter_joined q now"
    using assms by (rule filter_iff_joined)
  have past: "is_upcoming_match_option q now \<noteq> Inr True"
    if "py_int (bm_get questionEndTime q) = Inr n" "n \<le> now" for n
    using that by (simp add: iff filter_joined_def end_time_after_def)
  have unparsed: "is_upcoming_match_option q now \<noteq> Inr True"
    if "py_int (bm_get questionEndTime q) = Inl e" for e
    using that by (simp add: iff filter_joined_def end_time_after_def)
  have badchar: "is_upcoming_match_option q now \<noteq> Inr True"
    if e: "bm_get questionEndTime q = SStr s"
      and c: "\<exists>c\<in>set s. \<not> (is_digit c \<or> c = CHR ''_'' \<or> c = CHR ''+'' \<or> c = CHR ''-'' \<or>
                              int_space c)" for s
  proof -
    have "parse_int s = None"
    proof (cases "parse_int s")
      case None
      then show ?thesis .
    next
      case (Some n)
      then show ?thesis using parse_int_chars[OF Some] c by blast
    qed
    then have "py_int (bm_get questionEndTime q) = Inl ValueError" by (simp add: e)
    then show ?thesis by (rule unparsed)
  qed
  have toolong: "is_upcoming_match_option q now \<noteq> Inr True"
    if e: "bm_get questionEndTime q = SStr s"
      and l: "int_max_str_digits < length (filter is_digit s)" for s
  proof -
    have "parse_int s = None"
    proof (cases "parse_int s")
      case None
      then show ?thesis .
    next
      case (Some n)
      then show ?thesis using parse_int_digit_limit[OF Some] l by simp
    qed
    then have "py_int (bm_get questionEndTime q) = Inl ValueError" by (simp add: e)
    then show ?thesis by (rule unparsed)
  qed
  have c1: "looks_like_upcoming_match q now = Inr True \<longleftrightarrow> filter_joined q now"
    using iff by (simp add: looks_like_upcoming_match_def)
  have c2: "\<forall>s. bm_get category q = SStr s \<and> py_lower s = ''basketball''
              \<longrightarrow> is_upcoming_match_option q now = Inr False"
    using basketball_excluded by blast
  have c3: "\<forall>n. py_int (bm_get questionEndTime q) = Inr n \<and> n \<le> now
              \<longrightarrow> is_upcoming_match_option q now \<noteq> Inr True"
    using past by blast
  have c4: "\<forall>e. py_int (bm_get questionEndTime q) = Inl e
              \<longrightarrow> is_upcoming_match_option q now \<noteq> Inr True"
    using unparsed by blast
  have c5: "\<forall>s. bm_get questionEndTime q = SStr s \<and>
              (\<exists>c\<in>set s. \<not> (is_digit c \<or> c = CHR ''_'' \<or> c = CHR ''+'' \<or> c = CHR ''-'' \<or>
                              int_space c))
              \<longrightarrow> is_upcoming_match_option q now \<noteq> Inr True"
    using badchar by blast
  have c6: "\<forall>s. bm_get questionEndTime q = SStr s \<and>
              int_max_str_digits < length (filter is_digit s)
              \<longrightarrow> is_upcoming_match_option q now \<noteq> Inr True"
    using toolong by blast
  show ?thesis
    by (intro conjI; (rule iff | rule c1 | rule c2 | rule c3 | rule c4 | rule c5 | rule c6))
qed

theorem filter_passes_iff_joined_witness:
  "(0::int) \<le> 100 \<and>
   is_upcoming_match_option split_phrase_question 100 = Inr True \<and>
   filter_joined split_phrase_question 100 \<and>
   is_upcoming_match_option separator_question 100 = Inr False \<and>
   \<not> filter_joined separator_question 100"
proof -
  have h: "(0::int) \<le> 100" by simp
  have a: "is_upcoming_match_option split_phrase_question 100 = Inr True"
    by code_simp
  have b: "is_upcoming_match_option separator_question 100 = Inr False"
    by code_simp
  have j1: "filter_joined split_phrase_question 100"
    using a filter_passes_iff_joined[OF h, of split_phrase_question, THEN conjunct1] by simp
  have j2: "\<not> filter_joined separator_question 100"
    using b filter_passes_iff_joined[OF h, of separator_question, THEN conjunct1] by simp
  show ?thesis
    using h a b j1 j2 by (intro conjI)
qed

text \<open>
  The claim as worded fails on a record whose phrase is split over two header fields: the
  source joins the fields with spaces and finds \<^verbatim>\<open>match result\<close>, the concatenation
  \<^verbatim>\<open>matchresult: alpha vs beta\<close> does not contain it.
\<close>

theorem filter_concatenation_counterexample:
  "is_upcoming_match_option split_phrase_question 100 = Inr True \<and>
   \<not> filter_as_claimed split_phrase_question 100"
  by code_simp

subsection \<open>Reconciliation: the carry-over and the new keys\<close>

lemma map_entry_id: "AList.map_entry k (\<lambda>g. g) al = al"
  by (induction al) auto

lemma map_of_fold_map_entry:
  assumes "\<And>k g. F k (F k g) = F k g"
  shows "map_of (fold (\<lambda>k. AList.map_entry k (F k)) ks cur) k
       = (if k \<in> set ks then map_option (F k) (map_of cur k) else map_of cur k)"
proof (induction ks arbitrary: cur)
  case Nil
  then show ?case by simp
next
  case (Cons x xs)
  have idem: "map_option (F k) (map_option (F k) m) = map_option (F k) m" for m
    by (cases m) (simp_all add: assms)
  show ?case
    by (auto simp: Cons.IH map_of_map_entry idem assms split: option.splits)
qed

lemma carried_idem: "carried saved k (carried saved k g) = carried saved k g"
  by (simp add: carried_def split: option.splits)

lemma carry_over_fold:
  "carry_over saved current = fold (\<lambda>k. AList.map_entry k (carried saved k)) (map fst current) current"
proof -
  have "(case map_of saved k of None \<Rightarrow> cur
            | Some old \<Rightarrow> (case map_of old ''first_detected_at'' of None \<Rightarrow> cur
                 | Some v \<Rightarrow> AList.map_entry k (AList.update ''first_detected_at'' v) cur))
      = AList.map_entry k (carried saved k) cur" for k and cur :: snapshot
  proof (cases "map_of saved k")
    case None
    then have "carried saved k = (\<lambda>g. g)" by (simp add: carried_def fun_eq_iff)
    then show ?thesis using None by (simp add: map_entry_id)
  next
    case (Some old)
    show ?thesis
    proof (cases "map_of old ''first_detected_at''")
      case None
      then have "carried saved k = (\<lambda>g. g)" using Some by (simp add: carried_def fun_eq_iff)
      then show ?thesis using None Some by (simp add: map_entry_id)
    next
      case (Some v)
      then have "carried saved k = AList.update ''first_detected_at'' v"
        using \<open>map_of saved k = Some old\<close> by (simp add: carried_def fun_eq_iff)
      then show ?thesis using Some \<open>map_of saved k = Some old\<close> by simp
    qed
  qed
  then show ?thesis by (simp add: carry_over_def)
qed

lemma map_of_carry_over:
  "map_of (carry_over saved current) k = map_option (carried saved k) (map_of current k)"
proof -
  have "k \<notin> set (map fst current) \<Longrightarrow> map_of current k = None"
    by (simp add: map_of_eq_None_iff)
  then show ?thesis
    by (auto simp: carry_over_fold map_of_fold_map_entry[where F = "carried saved", OF carried_idem])
qed

lemma keys_carry_over: "map fst (carry_over saved current) = map fst current"
proof -
  have "map fst (fold (\<lambda>k. AList.map_entry k (F k)) ks cur) = map fst cur" for F ks and cur :: snapshot
  proof (induction ks arbitrary: cur)
    case Nil
    then show ?case by simp
  next
    case (Cons x xs)
    have "map fst (AList.map_entry x (F x) cur) = map fst cur"
      by (induction cur) auto
    then show ?case by (simp add: Cons.IH)
  qed
  then show ?thesis by (simp add: carry_over_fold)
qed

lemma announce_new_fst_gen:
  "fst (fold (\<lambda>k (cur, sent).
             let cur' = AList.map_entry k (AList.update ''first_detected_at'' (JStr now_str)) cur;
                 m = (case map_of cur' k of None \<Rightarrow> [] | Some g \<Rightarrow> g)
             in (cur', sent @ [new_match_alert m])) ks (c, s))
   = fold (\<lambda>k. AList.map_entry k (AList.update ''first_detected_at'' (JStr now_str))) ks c"
  by (induction ks arbitrary: c s) (simp_all add: Let_def)

lemma fst_announce_new:
  "fst (announce_new now_str ks current)
     = fold (\<lambda>k. AList.map_entry k (AList.update ''first_detected_at'' (JStr now_str))) ks current"
  unfolding announce_new_def by (rule announce_new_fst_gen)

lemma map_of_announce_new:
  "map_of (fst (announce_new now_str ks current)) k
     = (if k \<in> set ks then map_option (AList.update ''first_detected_at'' (JStr now_str)) (map_of current k)
        else map_of current k)"
  by (simp add: fst_announce_new
      map_of_fold_map_entry[where F = "\<lambda>k. AList.update ''first_detected_at'' (JStr now_str)"])

lemma set_new_keys_of:
  "set (new_keys_of saved current) = fst ` set current - fst ` set saved"
  by (simp add: new_keys_of_def)

lemma set_removed_keys_of:
  "set (removed_keys_of saved current) = fst ` set saved - fst ` set current"
  by (simp add: removed_keys_of_def)

lemma merged_eq:
  "merged (run_once_reconcile saved current now_str)
     = fst (announce_new now_str (new_keys_of saved current) (carry_over saved current))"
  by (simp add: run_once_reconcile_def Let_def split: prod.splits)

lemma w_current_eq:
  "w_current (watcher_reconcile hb saved current now_str)
     = fst (announce_new now_str (new_keys_of saved current) (carry_over saved current))"
  by (simp add: watcher_reconcile_def Let_def split: prod.splits)

lemma reconciled_lookup:
  "map_of (fst (announce_new now_str (new_keys_of saved current) (carry_over saved current))) k
     = map_option (\<lambda>g. if k \<in> fst ` set saved then carried saved k g
                        else AList.update ''first_detected_at'' (JStr now_str) g)
         (map_of current k)"
proof (cases "k \<in> fst ` set saved")
  case True
  then show ?thesis
    by (simp add: map_of_announce_new set_new_keys_of map_of_carry_over)
next
  case False
  then have "map_of saved k = None" by (simp add: map_of_eq_None_iff)
  then have id: "carried saved k = (\<lambda>g. g)" by (simp add: carried_def fun_eq_iff)
  have cur: "k \<notin> fst ` set current \<Longrightarrow> map_of current k = None"
    by (simp add: map_of_eq_None_iff)
  show ?thesis
    using False cur
    by (auto simp: map_of_announce_new set_new_keys_of map_of_carry_over id option.map_ident)
qed

subsection \<open>The normalizer: what a pass builds\<close>

lemma append_option_Inr:
  assumes "append_option key opt G = Inr G'"
  obtains g os where "map_of G key = Some g" "map_of g ''options'' = Some (JOptions os)"
    "G' = AList.update key (AList.update ''options'' (JOptions (os @ [opt])) g) G"
  using assms unfolding append_option_def
  by (auto split: option.splits jvalue.splits)

lemma set_group_field_Inr:
  assumes "set_group_field key field v G = Inr G'"
  obtains g where "map_of G key = Some g" "G' = AList.update key (AList.update field v g) G"
  using assms unfolding set_group_field_def
  by (auto split: option.splits)

lemma group_key_None:
  "group_key q = None \<Longrightarrow> build_step utc_iso q groups = Inr groups' \<Longrightarrow> groups' = groups"
  unfolding build_step_def group_key_def
  by (cases "py_or (bm_get parentQuestionHeader q) (SStr [])")
     (simp_all add: Let_def split: if_splits)


lemma group_key_Some:
  assumes "group_key q = Some key"
  obtains header where "py_or (bm_get parentQuestionHeader q) (SStr []) = SStr header"
    "header \<noteq> []" "truthy (bm_get parentQuestionId q)" "key = py_strip header"
  using assms unfolding group_key_def
  by (cases "py_or (bm_get parentQuestionHeader q) (SStr [])")
     (simp_all add: Let_def split: if_splits)

lemma build_step_Some:
  assumes "group_key q = Some key"
    and "py_or (bm_get parentQuestionHeader q) (SStr []) = SStr header"
  shows "build_step utc_iso q groups =
     (case str_method py_strip
             (py_or (py_or (bm_get questionHeaderExpanded q) (bm_get questionHeader q)) (SStr [])) of
        Inl e \<Rightarrow> Inl e
      | Inr option_title \<Rightarrow>
          (case append_option key (option_of q option_title)
                  (if map_of groups key = None
                   then AList.update key (fresh_group utc_iso q header) groups else groups) of
             Inl e \<Rightarrow> Inl e
           | Inr groups \<Rightarrow>
               if tradable (question.yesTokenMarketId q) (question.noTokenMarketId q)
               then set_group_field key ''is_approved'' (JBool True) groups
               else Inr groups))"
proof -
  from assms have t: "header \<noteq> []" "truthy (bm_get parentQuestionId q)" "key = py_strip header"
    by (auto elim!: group_key_Some)
  show ?thesis
    unfolding build_step_def fresh_group_def option_of_def t(3) Let_def assms(2)
    using t(1,2) by simp
qed


lemma build_step_cases:
  assumes "build_step utc_iso q groups = Inr groups'"
  obtains (skip) "group_key q = None" "groups' = groups"
  | (add) key header option_title g os where
      "group_key q = Some key"
      "map_of (if map_of groups key = None
               then AList.update key (fresh_group utc_iso q header) groups else groups) key = Some g"
      "map_of g ''options'' = Some (JOptions os)"
      "groups' =
         (let g2 = AList.update ''options'' (JOptions (os @ [option_of q option_title])) g;
              g3 = (if tradable (question.yesTokenMarketId q) (question.noTokenMarketId q)
                    then AList.update ''is_approved'' (JBool True) g2 else g2)
          in AList.update key g3
               (if map_of groups key = None
                then AList.update key (fresh_group utc_iso q header) groups else groups))"
proof (cases "group_key q")
  case None
  then show ?thesis using assms skip group_key_None by blast
next
  case (Some key)
  then obtain header where h: "py_or (bm_get parentQuestionHeader q) (SStr []) = SStr header"
    by (auto elim!: group_key_Some)
  let ?G1 = "if map_of groups key = None
             then AList.update key (fresh_group utc_iso q header) groups else groups"
  from assms obtain option_title G2 where
    a: "append_option key (option_of q option_title) ?G1 = Inr G2"
    and b: "(if tradable (question.yesTokenMarketId q) (question.noTokenMarketId q)
             then set_group_field key ''is_approved'' (JBool True) G2 else Inr G2) = Inr groups'"
    unfolding build_step_Some[OF Some h] by (auto split: sum.splits)
  from a obtain g os where g: "map_of ?G1 key = Some g" "map_of g ''options'' = Some (JOptions os)"
    and G2: "G2 = AList.update key (AList.update ''options'' (JOptions (os @ [option_of q option_title])) g) ?G1"
    by (rule append_option_Inr)
  have "groups' =
         (let g2 = AList.update ''options'' (JOptions (os @ [option_of q option_title])) g;
              g3 = (if tradable (question.yesTokenMarketId q) (question.noTokenMarketId q)
                    then AList.update ''is_approved'' (JBool True) g2 else g2)
          in AList.update key g3 ?G1)"
  proof (cases "tradable (question.yesTokenMarketId q) (question.noTokenMarketId q)")
    case True
    with b have "set_group_field key ''is_approved'' (JBool True) G2 = Inr groups'" by simp
    then show ?thesis
      using True unfolding G2 set_group_field_def
      by (simp add: update_conv' Let_def)
  next
    case False
    with b show ?thesis by (simp add: G2 Let_def)
  qed
  with Some g show ?thesis by (rule add)
qed

lemma built_fresh: "built_group (fresh_group utc_iso q header)"
  by (simp add: built_group_def fresh_group_def Let_def)

lemma fresh_not_approved:
  "map_of (fresh_group utc_iso q header) ''is_approved'' = Some (JBool False)"
  by (simp add: fresh_group_def Let_def)

lemma built_snapshot_iff:
  "built_snapshot G \<longleftrightarrow> distinct (map fst G) \<and> (\<forall>k g. map_of G k = Some g \<longrightarrow> built_group g)"
  unfolding built_snapshot_def by (auto dest: map_of_SomeD)

lemma built_group_appended:
  assumes "built_group g" "map_of g ''options'' = Some (JOptions os)"
  shows "built_group
           (let g2 = AList.update ''options'' (JOptions (os @ [opt])) g
            in if option_is_tradable opt then AList.update ''is_approved'' (JBool True) g2 else g2)"
  using assms unfolding built_group_def Let_def
  by (auto simp: update_keys update_conv')

lemma set_update_subset: "set (AList.update k v al) \<subseteq> insert (k, v) (set al)"
  by (induction al) auto

lemma built_snapshot_update:
  "built_snapshot G \<Longrightarrow> built_group g \<Longrightarrow> built_snapshot (AList.update k g G)"
  unfolding built_snapshot_def
  using set_update_subset[of k g G] by (auto simp: distinct_update)

lemma built_snapshot_lookup:
  "built_snapshot G \<Longrightarrow> map_of G k = Some g \<Longrightarrow> built_group g"
  unfolding built_snapshot_def by (auto dest: map_of_SomeD)

lemma build_step_built:
  assumes "build_step utc_iso q groups = Inr groups'" "built_snapshot groups"
  shows "built_snapshot groups'"
  using assms(1)
proof (cases rule: build_step_cases)
  case skip
  then show ?thesis using assms(2) by simp
next
  case (add key header option_title g os)
  let ?G1 = "if map_of groups key = None
             then AList.update key (fresh_group utc_iso q header) groups else groups"
  have G1: "built_snapshot ?G1"
    using assms(2) built_fresh[of utc_iso q header]
    by (simp add: built_snapshot_update)
  then have g: "built_group g" using add(2) by (rule built_snapshot_lookup)
  have tr: "option_is_tradable (option_of q option_title)
             = tradable (question.yesTokenMarketId q) (question.noTokenMarketId q)"
    by (simp add: option_of_def)
  have "built_group
           (let g2 = AList.update ''options'' (JOptions (os @ [option_of q option_title])) g
            in if tradable (question.yesTokenMarketId q) (question.noTokenMarketId q)
               then AList.update ''is_approved'' (JBool True) g2 else g2)"
    using built_group_appended[OF g add(3), of "option_of q option_title"] by (simp add: tr)
  then show ?thesis
    using G1 unfolding add(4) Let_def
    by (intro built_snapshot_update) (simp_all add: Let_def)
qed

lemma build_step_approved:
  assumes "build_step utc_iso q groups = Inr groups'"
  shows "approved groups' k \<longleftrightarrow>
           approved groups k \<or>
           (group_key q = Some k \<and> tradable (question.yesTokenMarketId q) (question.noTokenMarketId q))"
  using assms
proof (cases rule: build_step_cases)
  case skip
  then show ?thesis by simp
next
  case (add key header option_title g os)
  show ?thesis
  proof (cases "k = key")
    case False
    then show ?thesis
      unfolding add(4) approved_def Let_def using add(1)
      by (simp add: update_conv')
  next
    case True
    have g: "map_of g ''is_approved'' = Some (JBool True) \<longleftrightarrow> approved groups key"
      using add(2) fresh_not_approved[of utc_iso q header]
      by (auto simp: approved_def update_conv' split: if_splits option.splits)
    show ?thesis
      unfolding add(4) approved_def Let_def True using add(1) g
      by (simp add: update_conv' approved_def)
  qed
qed


lemma build_loop_built:
  "build_loop utc_iso qs groups = Inr groups' \<Longrightarrow> built_snapshot groups \<Longrightarrow> built_snapshot groups'"
proof (induction qs arbitrary: groups)
  case Nil
  then show ?case by simp
next
  case (Cons q qs)
  from Cons.prems(1) obtain G where s: "build_step utc_iso q groups = Inr G"
    and l: "build_loop utc_iso qs G = Inr groups'"
    by (auto split: sum.splits)
  show ?case
    using Cons.IH[OF l] build_step_built[OF s Cons.prems(2)] by simp
qed

lemma build_loop_approved:
  "build_loop utc_iso qs groups = Inr groups' \<Longrightarrow>
   approved groups' k \<longleftrightarrow>
     approved groups k \<or>
     (\<exists>q\<in>set qs. group_key q = Some k \<and>
         tradable (question.yesTokenMarketId q) (question.noTokenMarketId q))"
proof (induction qs arbitrary: groups)
  case Nil
  then show ?case by simp
next
  case (Cons q qs)
  from Cons.prems(1) obtain G where s: "build_step utc_iso q groups = Inr G"
    and l: "build_loop utc_iso qs G = Inr groups'"
    by (auto split: sum.splits)
  show ?case
    using Cons.IH[OF l] build_step_approved[OF s, of k] by auto
qed

lemma filter_candidates_Inr:
  "filter_candidates qs now = Inr cs \<Longrightarrow>
   cs = filter (\<lambda>q. is_upcoming_match_option q now = Inr True) qs"
proof (induction qs arbitrary: cs)
  case Nil
  then show ?case by simp
next
  case (Cons q qs)
  from Cons.prems obtain keep rest where k: "is_upcoming_match_option q now = Inr keep"
    and r: "filter_candidates qs now = Inr rest" and cs: "cs = (if keep then q # rest else rest)"
    by (auto split: sum.splits)
  show ?case using Cons.IH[OF r] k cs by simp
qed

lemma built_snapshot_approved_only:
  "built_snapshot G \<Longrightarrow> built_snapshot (approved_only G)"
  unfolding built_snapshot_def approved_only_def
  by (auto simp: distinct_map_filter)

lemma approved_approved_only:
  assumes "distinct (map fst G)"
  shows "approved (approved_only G) k \<longleftrightarrow> approved G k"
proof -
  have "map_of (approved_only G) k
          = (case map_of G k of None \<Rightarrow> None
             | Some g \<Rightarrow> if jtruthy (dict_get g ''is_approved'') then Some g else None)"
    using assms unfolding approved_only_def
    by (induction G) (auto split: option.splits simp: map_of_eq_None_iff image_iff)
  then show ?thesis
    by (auto simp: approved_def dict_get_def split: option.splits)
qed

lemma build_live_snapshot_Inr:
  assumes "build_live_snapshot utc_iso (Inr qs) now ra = Inr snap"
  shows "built_snapshot snap"
    and "approved snap k \<longleftrightarrow>
          (\<exists>q\<in>set qs. is_upcoming_match_option q now = Inr True \<and> group_key q = Some k \<and>
              tradable (question.yesTokenMarketId q) (question.noTokenMarketId q))"
proof -
  from assms obtain cs G where c: "filter_candidates qs now = Inr cs"
    and l: "build_loop utc_iso cs [] = Inr G"
    and snap: "snap = (if ra then approved_only G else G)"
    unfolding build_live_snapshot_def by (auto split: sum.splits)
  have e: "built_snapshot []" by (simp add: built_snapshot_def)
  have G: "built_snapshot G" using build_loop_built[OF l e] .
  show "built_snapshot snap"
    using G by (simp add: snap built_snapshot_approved_only)
  have d: "distinct (map fst G)" using G by (simp add: built_snapshot_def)
  have "approved snap k \<longleftrightarrow> approved G k"
    by (simp add: snap approved_approved_only[OF d])
  also have "\<dots> \<longleftrightarrow> (\<exists>q\<in>set cs. group_key q = Some k \<and>
         tradable (question.yesTokenMarketId q) (question.noTokenMarketId q))"
    using build_loop_approved[OF l, of k] by (simp add: approved_def)
  finally show "approved snap k \<longleftrightarrow>
          (\<exists>q\<in>set qs. is_upcoming_match_option q now = Inr True \<and> group_key q = Some k \<and>
              tradable (question.yesTokenMarketId q) (question.noTokenMarketId q))"
    unfolding filter_candidates_Inr[OF c] by auto
qed

lemma build_live_snapshot_built:
  assumes "build_live_snapshot utc_iso fetched now ra = Inr snap"
  shows "built_snapshot snap"
proof -
  from assms obtain qs where "fetched = Inr qs"
    unfolding build_live_snapshot_def by (cases fetched) auto
  with assms show ?thesis by (auto intro: build_live_snapshot_Inr(1))
qed

lemma built_group_no_first_detected:
  assumes "built_group g"
  shows "map_of g ''first_detected_at'' = None"
proof -
  have "set (map fst g) = set [''match_header'', ''slug'', ''multi_question_id'', ''options'',
                   ''questionEndTime'', ''questionEndTime_iso'', ''is_approved'']"
    using assms unfolding built_group_def by simp
  then have "''first_detected_at'' \<notin> fst ` set g" by simp
  then show ?thesis by (simp add: map_of_eq_None_iff)
qed

subsection \<open>Reconciliation and approval: the claims\<close>

text \<open>
  Claim C1. For every old and new snapshot and every key present in both, if the old record
  carries \<^verbatim>\<open>first_detected_at\<close> then the merged record, in the cron run and in the
  watcher's pass alike, is the fresh record with \<^verbatim>\<open>first_detected_at\<close> set to the old
  record's value: the timestamp of a surviving key is carried over unaltered.
\<close>

theorem first_detected_at_carried_over:
  assumes "map_of saved k = Some old"
    and "map_of old ''first_detected_at'' = Some t"
    and "map_of current k = Some fresh"
  shows "map_of (merged (run_once_reconcile saved current now_str)) k
           = Some (AList.update ''first_detected_at'' t fresh) \<and>
         map_of (w_current (watcher_reconcile hb saved current now_str)) k
           = Some (AList.update ''first_detected_at'' t fresh) \<and>
         map_of (AList.update ''first_detected_at'' t fresh) ''first_detected_at'' = Some t"
proof -
  have "k \<in> fst ` set saved"
    using assms(1) by (metis map_of_eq_None_iff option.distinct(1))
  moreover have "carried saved k fresh = AList.update ''first_detected_at'' t fresh"
    using assms(1,2) by (simp add: carried_def)
  ultimately show ?thesis
    using assms(3) by (simp add: merged_eq w_current_eq reconciled_lookup update_conv')
qed

theorem first_detected_at_carried_over_witness:
  "map_of (merged (run_once_reconcile [(''Alpha vs Beta'', stored_alpha_group)]
                     [(''Alpha vs Beta'', alpha_group)] (now_iso noon))) ''Alpha vs Beta''
     = Some (AList.update ''first_detected_at'' (JStr ''2025-01-01 00:00:00'') alpha_group)"
proof -
  have a: "map_of [(''Alpha vs Beta'', stored_alpha_group)] ''Alpha vs Beta'' = Some stored_alpha_group"
    by simp
  have b: "map_of stored_alpha_group ''first_detected_at'' = Some (JStr ''2025-01-01 00:00:00'')"
    by (simp add: stored_alpha_group_def)
  have c: "map_of [(''Alpha vs Beta'', alpha_group)] ''Alpha vs Beta'' = Some alpha_group"
    by simp
  show ?thesis
    using first_detected_at_carried_over[OF a b c] by simp
qed

text \<open>
  Claim C10. If a key is present in both snapshots and the old record lacks
  \<^verbatim>\<open>first_detected_at\<close>, the merged record is the freshly built record as it is, and it
  carries no \<^verbatim>\<open>first_detected_at\<close>: the carry-over skips it and the fresh timestamp goes
  to new keys only.
\<close>

theorem missing_first_detected_at_stays_missing:
  assumes "build_live_snapshot utc_iso fetched now ra = Inr current"
    and "map_of saved k = Some old"
    and "map_of old ''first_detected_at'' = None"
    and "map_of current k = Some fresh"
  shows "map_of (merged (run_once_reconcile saved current now_str)) k = Some fresh \<and>
         map_of (w_current (watcher_reconcile hb saved current now_str)) k = Some fresh \<and>
         map_of fresh ''first_detected_at'' = None"
proof -
  have "k \<in> fst ` set saved"
    using assms(2) by (metis map_of_eq_None_iff option.distinct(1))
  moreover have "carried saved k fresh = fresh"
    using assms(2,3) by (simp add: carried_def)
  moreover have "built_group fresh"
    using build_live_snapshot_built[OF assms(1)] assms(4) by (rule built_snapshot_lookup)
  ultimately show ?thesis
    using assms(4) built_group_no_first_detected
    by (simp add: merged_eq w_current_eq reconciled_lookup)
qed

theorem missing_first_detected_at_stays_missing_witness:
  "map_of (merged (run_once_reconcile [(''Alpha vs Beta'', undated_alpha_group)]
                     [(''Alpha vs Beta'', alpha_group)] (now_iso noon))) ''Alpha vs Beta''
     = Some alpha_group \<and>
   map_of alpha_group ''first_detected_at'' = None"
proof -
  have a: "build_live_snapshot iso_unavailable (Inr [alpha_question]) 100 True
             = Inr [(''Alpha vs Beta'', alpha_group)]"
    by code_simp
  have b: "map_of [(''Alpha vs Beta'', undated_alpha_group)] ''Alpha vs Beta'' = Some undated_alpha_group"
    by simp
  have c: "map_of undated_alpha_group ''first_detected_at'' = None"
    by (simp add: undated_alpha_group_def)
  have d: "map_of [(''Alpha vs Beta'', alpha_group)] ''Alpha vs Beta'' = Some alpha_group"
    by simp
  show ?thesis
    using missing_first_detected_at_stays_missing[OF a b c d] by simp
qed

text \<open>
  Claim C6. Reconciling a snapshot against itself yields no new key and no removed key
  (and so no alert and no removal-log entry).
\<close>

theorem reconcile_self_no_changes:
  "new_keys (run_once_reconcile S S now_str) = [] \<and>
   removed_keys (run_once_reconcile S S now_str) = [] \<and>
   removal_log (run_once_reconcile S S now_str) = [] \<and>
   alerts (run_once_reconcile S S now_str) = [] \<and>
   w_new_keys (watcher_reconcile hb S S now_str) = [] \<and>
   w_alerts (watcher_reconcile hb S S now_str) = []"
  by (simp add: run_once_reconcile_def watcher_reconcile_def new_keys_of_def removed_keys_of_def
      announce_new_def Let_def)

theorem reconcile_self_no_changes_witness:
  "new_keys (run_once_reconcile [(''Gamma vs Delta'', gamma_group)]
               [(''Gamma vs Delta'', gamma_group)] (now_iso noon)) = [] \<and>
   removed_keys (run_once_reconcile [(''Gamma vs Delta'', gamma_group)]
               [(''Gamma vs Delta'', gamma_group)] (now_iso noon)) = []"
  using reconcile_self_no_changes[of "[(''Gamma vs Delta'', gamma_group)]" "now_iso noon"]
  by simp


lemma now_iso_nonempty: "now_iso d \<noteq> []"
  by (simp add: now_iso_def)

lemma new_keys_eq: "new_keys (run_once_reconcile saved current now_str) = new_keys_of saved current"
  by (simp add: run_once_reconcile_def Let_def split: prod.splits)

text \<open>
  Claim C3. For every key of the freshly built snapshot that is absent from the old one,
  the merged record's \<^verbatim>\<open>first_detected_at\<close> is the timestamp \<^verbatim>\<open>now_iso()\<close> of the
  reconciliation, which is not empty and does not depend on the old snapshot. The new keys
  are exactly those keys, the watcher's pass produces the same merged snapshot, and every
  \<^verbatim>\<open>first_detected_at\<close> in the merged snapshot is either that timestamp on a new key or
  the value the old record of the same key carried: no other path originates one.
\<close>

theorem new_key_first_detected_at:
  assumes "build_live_snapshot utc_iso fetched now ra = Inr current"
  shows "(\<forall>k fresh. map_of current k = Some fresh \<and> k \<notin> fst ` set saved \<longrightarrow>
            map_of (merged (run_once_reconcile saved current (now_iso d))) k
              = Some (AList.update ''first_detected_at'' (JStr (now_iso d)) fresh) \<and>
            map_of (AList.update ''first_detected_at'' (JStr (now_iso d)) fresh) ''first_detected_at''
              = Some (JStr (now_iso d))) \<and>
         now_iso d \<noteq> [] \<and>
         w_current (watcher_reconcile hb saved current (now_iso d))
           = merged (run_once_reconcile saved current (now_iso d)) \<and>
         set (new_keys (run_once_reconcile saved current (now_iso d)))
           = fst ` set current - fst ` set saved \<and>
         (\<forall>k g v. map_of (merged (run_once_reconcile saved current (now_iso d))) k = Some g \<and>
                   map_of g ''first_detected_at'' = Some v \<longrightarrow>
                   (k \<notin> fst ` set saved \<and> v = JStr (now_iso d)) \<or>
                   (\<exists>old. map_of saved k = Some old \<and> map_of old ''first_detected_at'' = Some v)) \<and>
         run_once utc_iso ra saved fetched now d
           = Inr (run_once_reconcile saved current (now_iso d))"
proof -
  let ?m = "merged (run_once_reconcile saved current (now_iso d))"
  have new: "map_of ?m k = Some (AList.update ''first_detected_at'' (JStr (now_iso d)) fresh)"
    if "map_of current k = Some fresh" "k \<notin> fst ` set saved" for k fresh
    using that by (simp add: merged_eq reconciled_lookup)
  have origin: "(k \<notin> fst ` set saved \<and> v = JStr (now_iso d)) \<or>
                (\<exists>old. map_of saved k = Some old \<and> map_of old ''first_detected_at'' = Some v)"
    if m: "map_of ?m k = Some g" and v: "map_of g ''first_detected_at'' = Some v" for k g v
  proof (cases "k \<in> fst ` set saved")
    case False
    from m obtain fresh where "map_of current k = Some fresh"
      and "g = AList.update ''first_detected_at'' (JStr (now_iso d)) fresh"
      using False by (auto simp: merged_eq reconciled_lookup)
    then show ?thesis using v False by (simp add: update_conv')
  next
    case True
    from m obtain fresh where f: "map_of current k = Some fresh" and g: "g = carried saved k fresh"
      using True by (auto simp: merged_eq reconciled_lookup)
    have "built_group fresh"
      using build_live_snapshot_built[OF assms] f by (rule built_snapshot_lookup)
    then have none: "map_of fresh ''first_detected_at'' = None"
      by (rule built_group_no_first_detected)
    show ?thesis
      using v none unfolding g carried_def
      by (auto simp: update_conv' split: option.splits)
  qed
  have run: "run_once utc_iso ra saved fetched now d
               = Inr (run_once_reconcile saved current (now_iso d))"
    using assms by (simp add: run_once_def build_current_matches_snapshot_def)
  have c1: "\<forall>k fresh. map_of current k = Some fresh \<and> k \<notin> fst ` set saved \<longrightarrow>
            map_of ?m k = Some (AList.update ''first_detected_at'' (JStr (now_iso d)) fresh) \<and>
            map_of (AList.update ''first_detected_at'' (JStr (now_iso d)) fresh) ''first_detected_at''
              = Some (JStr (now_iso d))"
    using new by (simp add: update_conv')
  have c3: "w_current (watcher_reconcile hb saved current (now_iso d)) = ?m"
    by (simp add: merged_eq w_current_eq)
  have c4: "set (new_keys (run_once_reconcile saved current (now_iso d)))
           = fst ` set current - fst ` set saved"
    by (simp add: new_keys_eq set_new_keys_of)
  have c5: "\<forall>k g v. map_of ?m k = Some g \<and> map_of g ''first_detected_at'' = Some v \<longrightarrow>
                   (k \<notin> fst ` set saved \<and> v = JStr (now_iso d)) \<or>
                   (\<exists>old. map_of saved k = Some old \<and> map_of old ''first_detected_at'' = Some v)"
    using origin by blast
  show ?thesis
    by (intro conjI c1 now_iso_nonempty c3 c4 c5 run)
qed

theorem new_key_first_detected_at_witness:
  "map_of (merged (run_once_reconcile [(''Gamma vs Delta'', gamma_group)]
                     [(''Alpha vs Beta'', alpha_group)] (now_iso noon))) ''Alpha vs Beta''
     = Some (AList.update ''first_detected_at'' (JStr ''2026-03-07 12:00:05'') alpha_group) \<and>
   run_once iso_unavailable True [(''Gamma vs Delta'', gamma_group)] (Inr [alpha_question]) 100 noon
     = Inr (run_once_reconcile [(''Gamma vs Delta'', gamma_group)]
              [(''Alpha vs Beta'', alpha_group)] (now_iso noon))"
proof -
  have a: "build_live_snapshot iso_unavailable (Inr [alpha_question]) 100 True
             = Inr [(''Alpha vs Beta'', alpha_group)]"
    by code_simp
  have b: "map_of [(''Alpha vs Beta'', alpha_group)] ''Alpha vs Beta'' = Some alpha_group"
    by simp
  have c: "''Alpha vs Beta'' \<notin> fst ` set [(''Gamma vs Delta'', gamma_group)]"
    by simp
  have n: "now_iso noon = ''2026-03-07 12:00:05''"
    by code_simp
  have m: "map_of (merged (run_once_reconcile [(''Gamma vs Delta'', gamma_group)]
                     [(''Alpha vs Beta'', alpha_group)] (now_iso noon))) ''Alpha vs Beta''
     = Some (AList.update ''first_detected_at'' (JStr (now_iso noon)) alpha_group)"
    using new_key_first_detected_at[OF a, of "[(''Gamma vs Delta'', gamma_group)]" noon] b c
    by blast
  have r: "run_once iso_unavailable True [(''Gamma vs Delta'', gamma_group)] (Inr [alpha_question]) 100 noon
     = Inr (run_once_reconcile [(''Gamma vs Delta'', gamma_group)]
              [(''Alpha vs Beta'', alpha_group)] (now_iso noon))"
    using new_key_first_detected_at[OF a, of "[(''Gamma vs Delta'', gamma_group)]" noon]
    by blast
  show ?thesis
    using m r unfolding n by (intro conjI)
qed

text \<open>
  Claim C5. In the snapshot a normalization pass returns, a group with a tradable option has
  \<^verbatim>\<open>is_approved\<close> true; a record that passes the filter, is grouped under a key and is
  tradable makes the group of that key approved; the approved keys are the same for every
  order (and multiplicity) of the fetched records; and a step of the pass never turns an
  approved group back to unapproved. Two string identifiers are tradable exactly when both
  are non-empty and neither is \<^verbatim>\<open>0\<close>, and a missing identifier is never tradable. The
  cron script's builder is the same function.
\<close>

theorem approval_monotone:
  assumes "build_live_snapshot utc_iso (Inr qs) now ra = Inr snap"
  shows "(\<forall>k g os. map_of snap k = Some g \<and> map_of g ''options'' = Some (JOptions os) \<and>
                    (\<exists>opt\<in>set os. option_is_tradable opt)
                    \<longrightarrow> map_of g ''is_approved'' = Some (JBool True)) \<and>
         (\<forall>q\<in>set qs. \<forall>k. is_upcoming_match_option q now = Inr True \<and> group_key q = Some k \<and>
                    tradable (question.yesTokenMarketId q) (question.noTokenMarketId q)
                    \<longrightarrow> approved snap k) \<and>
         (\<forall>qs' snap'. set qs' = set qs \<and>
                    build_live_snapshot utc_iso (Inr qs') now ra = Inr snap'
                    \<longrightarrow> (\<forall>k. approved snap' k = approved snap k)) \<and>
         (\<forall>q groups groups' k. build_step utc_iso q groups = Inr groups' \<and> approved groups k
                    \<longrightarrow> approved groups' k) \<and>
         (\<forall>a b. tradable (SStr a) (SStr b) \<longleftrightarrow> a \<noteq> [] \<and> b \<noteq> [] \<and> a \<noteq> ''0'' \<and> b \<noteq> ''0'') \<and>
         (\<forall>x. \<not> tradable SNull x \<and> \<not> tradable x SNull) \<and>
         build_current_matches_snapshot utc_iso (Inr qs) now ra = Inr snap"
proof -
  have a: "map_of g ''is_approved'' = Some (JBool True)"
    if "map_of snap k = Some g" "map_of g ''options'' = Some (JOptions os)"
       "\<exists>opt\<in>set os. option_is_tradable opt" for k g os
  proof -
    have "built_group g"
      using build_live_snapshot_Inr(1)[OF assms] that(1) by (rule built_snapshot_lookup)
    then show ?thesis using that(2,3) by (simp add: built_group_def)
  qed
  have b: "approved snap k"
    if "q \<in> set qs" "is_upcoming_match_option q now = Inr True" "group_key q = Some k"
       "tradable (question.yesTokenMarketId q) (question.noTokenMarketId q)" for q k
    using build_live_snapshot_Inr(2)[OF assms, of k] that by blast
  have c: "approved snap' k = approved snap k"
    if "set qs' = set qs" "build_live_snapshot utc_iso (Inr qs') now ra = Inr snap'" for qs' snap' k
    using build_live_snapshot_Inr(2)[OF assms, of k] build_live_snapshot_Inr(2)[OF that(2), of k] that(1)
    by simp
  have d: "approved groups' k"
    if "build_step utc_iso q groups = Inr groups'" "approved groups k" for q groups groups' k
    using build_step_approved[OF that(1), of k] that(2) by simp
  have e: "build_current_matches_snapshot utc_iso (Inr qs) now ra = Inr snap"
    using assms by (simp add: build_current_matches_snapshot_def)
  have a': "\<forall>k g os. map_of snap k = Some g \<and> map_of g ''options'' = Some (JOptions os) \<and>
                    (\<exists>opt\<in>set os. option_is_tradable opt)
                    \<longrightarrow> map_of g ''is_approved'' = Some (JBool True)"
    using a by blast
  have b': "\<forall>q\<in>set qs. \<forall>k. is_upcoming_match_option q now = Inr True \<and> group_key q = Some k \<and>
                    tradable (question.yesTokenMarketId q) (question.noTokenMarketId q)
                    \<longrightarrow> approved snap k"
    using b by blast
  have c': "\<forall>qs' snap'. set qs' = set qs \<and>
                    build_live_snapshot utc_iso (Inr qs') now ra = Inr snap'
                    \<longrightarrow> (\<forall>k. approved snap' k = approved snap k)"
    using c by blast
  have d': "\<forall>q groups groups' k. build_step utc_iso q groups = Inr groups' \<and> approved groups k
                    \<longrightarrow> approved groups' k"
    using d by blast
  have t1: "\<forall>a b. tradable (SStr a) (SStr b) \<longleftrightarrow> a \<noteq> [] \<and> b \<noteq> [] \<and> a \<noteq> ''0'' \<and> b \<noteq> ''0''"
    by (simp add: tradable_def)
  have t2: "\<forall>x. \<not> tradable SNull x \<and> \<not> tradable x SNull"
    by (simp add: tradable_def)
  show ?thesis
    by (intro conjI; (rule a' | rule b' | rule c' | rule d' | rule t1 | rule t2 | rule e))
qed

theorem approval_monotone_witness:
  "build_live_snapshot iso_unavailable (Inr [draw_question, alpha_question]) 100 True
     = Inr [(''Alpha vs Beta'',
             AList.update ''is_approved'' (JBool True)
               (AList.update ''options''
                  (JOptions [option_of draw_question ''Draw'', option_of alpha_question ''Alpha wins''])
                  (fresh_group iso_unavailable draw_question ''Alpha vs Beta'')))] \<and>
   approved [(''Alpha vs Beta'',
             AList.update ''is_approved'' (JBool True)
               (AList.update ''options''
                  (JOptions [option_of draw_question ''Draw'', option_of alpha_question ''Alpha wins''])
                  (fresh_group iso_unavailable draw_question ''Alpha vs Beta'')))] ''Alpha vs Beta''"
proof -
  have a: "build_live_snapshot iso_unavailable (Inr [draw_question, alpha_question]) 100 True
     = Inr [(''Alpha vs Beta'',
             AList.update ''is_approved'' (JBool True)
               (AList.update ''options''
                  (JOptions [option_of draw_question ''Draw'', option_of alpha_question ''Alpha wins''])
                  (fresh_group iso_unavailable draw_question ''Alpha vs Beta'')))]"
    by code_simp
  have q: "alpha_question \<in> set [draw_question, alpha_question]" by simp
  have p: "is_upcoming_match_option alpha_question 100 = Inr True" by code_simp
  have k: "group_key alpha_question = Some ''Alpha vs Beta''" by code_simp
  have t: "tradable (question.yesTokenMarketId alpha_question) (question.noTokenMarketId alpha_question)"
    by code_simp
  have "approved [(''Alpha vs Beta'',
             AList.update ''is_approved'' (JBool True)
               (AList.update ''options''
                  (JOptions [option_of draw_question ''Draw'', option_of alpha_question ''Alpha wins''])
                  (fresh_group iso_unavailable draw_question ''Alpha vs Beta'')))] ''Alpha vs Beta''"
    using approval_monotone[OF a, THEN conjunct2, THEN conjunct1] q p k t by blast
  then show ?thesis
    using a by (intro conjI)
qed

subsection \<open>The validator and the removal log\<close>

lemma validate_step_removed:
  "map_of live key = None \<Longrightarrow>
   validate_step live key (S, R, U)
     = (AList.delete key S, R @ [RemovedReason key ''no longer approved/present''], U)"
  by (simp add: validate_step_def)

lemma get_after_update:
  "f \<noteq> f' \<Longrightarrow> dict_get (AList.update f v s) f' = dict_get s f'"
  "f \<noteq> f' \<Longrightarrow> dict_get_default (AList.update f v s) f' d = dict_get_default s f' d"
  by (simp_all add: dict_get_def dict_get_default_def update_conv')

lemma validate_step_present:
  assumes "map_of live key = Some l"
  shows "validate_step live key (S, R, U)
     = (let s = (case map_of S key of None \<Rightarrow> [] | Some g \<Rightarrow> g)
        in if end_differs s l \<or> options_differ s l \<or> approved_differs s l
           then (AList.update key (refreshed s l) S, R, U @ [key])
           else (S, R, U))"
  unfolding validate_step_def refreshed_def end_differs_def options_differ_def approved_differs_def
  by (simp add: assms Let_def get_after_update)


lemma key_view_other:
  assumes "key \<noteq> k"
  shows "key_view k (validate_step live key st) = key_view k st"
proof (cases st)
  case (fields S R U)
  show ?thesis
  proof (cases "map_of live key")
    case None
    then show ?thesis
      using assms by (simp add: fields validate_step_removed key_view_def)
  next
    case (Some l)
    then show ?thesis
      using assms
      by (simp add: fields validate_step_present key_view_def Let_def update_conv')
  qed
qed

lemma key_view_fold_other:
  "k \<notin> set ks \<Longrightarrow> key_view k (fold (validate_step live) ks st) = key_view k st"
proof (induction ks arbitrary: st)
  case Nil
  then show ?case by simp
next
  case (Cons key ks)
  then have "key \<noteq> k" and "k \<notin> set ks" by auto
  then show ?case by (simp add: Cons.IH key_view_other)
qed

lemma key_view_fold_at:
  assumes "distinct ks" "k \<in> set ks"
  shows "\<exists>st'. key_view k st' = key_view k st \<and>
           key_view k (fold (validate_step live) ks st) = key_view k (validate_step live k st')"
proof -
  from assms(2) obtain xs ys where ks: "ks = xs @ k # ys" by (meson split_list)
  with assms(1) have nx: "k \<notin> set xs" and ny: "k \<notin> set ys" by auto
  let ?st' = "fold (validate_step live) xs st"
  have "key_view k ?st' = key_view k st"
    using nx by (rule key_view_fold_other)
  moreover have "key_view k (fold (validate_step live) ks st) = key_view k (validate_step live k ?st')"
    using ny by (simp add: ks key_view_fold_other)
  ultimately show ?thesis by blast
qed

lemma key_view_step_removed:
  assumes "map_of live k = None"
  shows "key_view k (validate_step live k st)
       = (None, fst (snd (key_view k st)) @ [RemovedReason k ''no longer approved/present''],
          snd (snd (key_view k st)))"
  by (cases st) (simp add: assms validate_step_removed key_view_def delete_conv')

lemma key_view_step_present:
  assumes "map_of live k = Some l" "fst (key_view k st) = Some s"
  shows "key_view k (validate_step live k st)
       = (Some (if end_differs s l \<or> options_differ s l \<or> approved_differs s l
                then refreshed s l else s),
          fst (snd (key_view k st)),
          snd (snd (key_view k st)) \<or> end_differs s l \<or> options_differ s l \<or> approved_differs s l)"
  using assms(2)
  by (cases st) (auto simp: assms(1) validate_step_present key_view_def Let_def update_conv')

lemma refreshed_unchanged:
  "\<not> end_differs s l \<Longrightarrow> \<not> options_differ s l \<Longrightarrow> \<not> approved_differs s l \<Longrightarrow> refreshed s l = s"
  by (simp add: refreshed_def)

lemma validate_snapshot_live:
  assumes "build_live_snapshot utc_iso fetched now True = Inr live" "saved \<noteq> []"
  shows "key_view k (v_saved (validate_snapshot utc_iso saved fetched now),
                     v_removal_log (validate_snapshot utc_iso saved fetched now),
                     v_updated (validate_snapshot utc_iso saved fetched now))
       = key_view k (fold (validate_step live) (map fst saved) (saved, [], []))"
  using assms unfolding validate_snapshot_def
  by (cases "fold (validate_step live) (map fst saved) (saved, [], [])") simp

lemma validated_removed:
  assumes "build_live_snapshot utc_iso fetched now True = Inr live"
    and "distinct (map fst saved)" and "map_of saved k = Some old" and "map_of live k = None"
  shows "map_of (v_saved (validate_snapshot utc_iso saved fetched now)) k = None"
    and "filter (\<lambda>e. entry_key e = k) (v_removal_log (validate_snapshot utc_iso saved fetched now))
           = [RemovedReason k ''no longer approved/present'']"
    and "k \<notin> set (v_updated (validate_snapshot utc_iso saved fetched now))"
proof -
  have ne: "saved \<noteq> []" using assms(3) by auto
  have k: "k \<in> set (map fst saved)"
    using assms(3) by (metis map_of_eq_None_iff option.distinct(1) set_map)
  from key_view_fold_at[OF assms(2) k, of "(saved, [], [])" live]
  obtain st' where st': "key_view k st' = key_view k (saved, [], [])"
    and f: "key_view k (fold (validate_step live) (map fst saved) (saved, [], []))
              = key_view k (validate_step live k st')"
    by blast
  have v: "key_view k (v_saved (validate_snapshot utc_iso saved fetched now),
                     v_removal_log (validate_snapshot utc_iso saved fetched now),
                     v_updated (validate_snapshot utc_iso saved fetched now))
         = (None, [RemovedReason k ''no longer approved/present''], False)"
    unfolding validate_snapshot_live[OF assms(1) ne] f key_view_step_removed[OF assms(4)] st'
    by (simp add: key_view_def)
  show "map_of (v_saved (validate_snapshot utc_iso saved fetched now)) k = None"
    and "filter (\<lambda>e. entry_key e = k) (v_removal_log (validate_snapshot utc_iso saved fetched now))
           = [RemovedReason k ''no longer approved/present'']"
    and "k \<notin> set (v_updated (validate_snapshot utc_iso saved fetched now))"
    using v by (simp_all add: key_view_def)
qed

lemma validated_present:
  assumes "build_live_snapshot utc_iso fetched now True = Inr live"
    and "distinct (map fst saved)" and "map_of saved k = Some s" and "map_of live k = Some l"
  shows "map_of (v_saved (validate_snapshot utc_iso saved fetched now)) k = Some (refreshed s l)"
    and "filter (\<lambda>e. entry_key e = k) (v_removal_log (validate_snapshot utc_iso saved fetched now)) = []"
    and "k \<in> set (v_updated (validate_snapshot utc_iso saved fetched now))
           \<longleftrightarrow> end_differs s l \<or> options_differ s l \<or> approved_differs s l"
proof -
  have ne: "saved \<noteq> []" using assms(3) by auto
  have k: "k \<in> set (map fst saved)"
    using assms(3) by (metis map_of_eq_None_iff option.distinct(1) set_map)
  from key_view_fold_at[OF assms(2) k, of "(saved, [], [])" live]
  obtain st' where st': "key_view k st' = key_view k (saved, [], [])"
    and f: "key_view k (fold (validate_step live) (map fst saved) (saved, [], []))
              = key_view k (validate_step live k st')"
    by blast
  have s: "fst (key_view k st') = Some s"
    unfolding st' using assms(3) by (simp add: key_view_def)
  have v: "key_view k (v_saved (validate_snapshot utc_iso saved fetched now),
                     v_removal_log (validate_snapshot utc_iso saved fetched now),
                     v_updated (validate_snapshot utc_iso saved fetched now))
         = (Some (refreshed s l), [],
            end_differs s l \<or> options_differ s l \<or> approved_differs s l)"
    unfolding validate_snapshot_live[OF assms(1) ne] f key_view_step_present[OF assms(4) s] st'
    by (auto simp: key_view_def refreshed_unchanged)
  show "map_of (v_saved (validate_snapshot utc_iso saved fetched now)) k = Some (refreshed s l)"
    and "filter (\<lambda>e. entry_key e = k) (v_removal_log (validate_snapshot utc_iso saved fetched now)) = []"
    and "k \<in> set (v_updated (validate_snapshot utc_iso saved fetched now))
           \<longleftrightarrow> end_differs s l \<or> options_differ s l \<or> approved_differs s l"
    using v by (simp_all add: key_view_def)
qed


lemma filter_eq_single:
  "distinct xs \<Longrightarrow> k \<in> set xs \<Longrightarrow> filter (\<lambda>x. x = k) xs = [k]"
proof (induction xs)
  case Nil
  then show ?case by simp
next
  case (Cons x xs)
  show ?case
  proof (cases "x = k")
    case True
    then have "k \<notin> set xs" using Cons.prems(1) by simp
    then have "filter (\<lambda>x. x = k) xs = []" by (auto simp: filter_empty_conv)
    then show ?thesis using True by simp
  next
    case False
    then show ?thesis using Cons by simp
  qed
qed

lemma removal_log_eq:
  "removal_log (run_once_reconcile saved current now_str)
     = map (\<lambda>k. RemovedData k (case map_of saved k of None \<Rightarrow> [] | Some g \<Rightarrow> g))
         (removed_keys_of saved current)"
  by (simp add: run_once_reconcile_def Let_def split: prod.splits)

lemma cron_removal_entry:
  assumes "map_of saved k = Some old" and "map_of current k = None"
  shows "filter (\<lambda>e. entry_key e = k) (removal_log (run_once_reconcile saved current now_str))
           = [RemovedData k old]"
proof -
  have "k \<in> fst ` set saved"
    using assms(1) by (metis map_of_eq_None_iff option.distinct(1))
  moreover have "k \<notin> fst ` set current"
    using assms(2) by (simp add: map_of_eq_None_iff)
  ultimately have k: "k \<in> set (removed_keys_of saved current)"
    by (simp add: set_removed_keys_of)
  have d: "distinct (removed_keys_of saved current)"
    by (simp add: removed_keys_of_def)
  have "filter (\<lambda>e. entry_key e = k) (removal_log (run_once_reconcile saved current now_str))
      = map (\<lambda>k. RemovedData k (case map_of saved k of None \<Rightarrow> [] | Some g \<Rightarrow> g))
          (filter (\<lambda>x. x = k) (removed_keys_of saved current))"
    by (simp add: removal_log_eq filter_map comp_def)
  then show ?thesis
    by (simp add: filter_eq_single[OF d k] assms(1))
qed

text \<open>
  Claim C2, amended. For every key of the old snapshot that is absent from the new one, the
  removal log of the cron run receives exactly one entry, which pairs the key with the old
  record as stored; the removal log of the watcher's validator receives exactly one entry,
  which pairs the key with the reason \<^verbatim>\<open>no longer approved/present\<close>, and the key is
  dropped from the snapshot the validator returns.
\<close>

theorem removal_log_entries:
  assumes "map_of saved k = Some old" and "map_of current k = None"
  shows "filter (\<lambda>e. entry_key e = k) (removal_log (run_once_reconcile saved current now_str))
           = [RemovedData k old] \<and>
         (distinct (map fst saved) \<and> build_live_snapshot utc_iso fetched now True = Inr current
            \<longrightarrow> filter (\<lambda>e. entry_key e = k)
                  (v_removal_log (validate_snapshot utc_iso saved fetched now))
                  = [RemovedReason k ''no longer approved/present''] \<and>
                map_of (v_saved (validate_snapshot utc_iso saved fetched now)) k = None)"
  using cron_removal_entry[OF assms] validated_removed(1,2)[OF _ _ assms]
  by blast

theorem removal_log_entries_witness:
  "filter (\<lambda>e. entry_key e = ''Gamma vs Delta'')
     (removal_log (run_once_reconcile [(''Gamma vs Delta'', gamma_group)]
                     [(''Alpha vs Beta'', alpha_group)] (now_iso noon)))
     = [RemovedData ''Gamma vs Delta'' gamma_group] \<and>
   filter (\<lambda>e. entry_key e = ''Gamma vs Delta'')
     (v_removal_log (validate_snapshot iso_unavailable [(''Gamma vs Delta'', gamma_group)]
                       (Inr [alpha_question]) 100))
     = [RemovedReason ''Gamma vs Delta'' ''no longer approved/present'']"
proof -
  have a: "map_of [(''Gamma vs Delta'', gamma_group)] ''Gamma vs Delta'' = Some gamma_group"
    by simp
  have b: "map_of [(''Alpha vs Beta'', alpha_group)] ''Gamma vs Delta'' = None"
    by simp
  have c: "distinct (map fst [(''Gamma vs Delta'', gamma_group)])"
    by simp
  have d: "build_live_snapshot iso_unavailable (Inr [alpha_question]) 100 True
             = Inr [(''Alpha vs Beta'', alpha_group)]"
    by code_simp
  show ?thesis
    using removal_log_entries[OF a b, of "now_iso noon" iso_unavailable "Inr [alpha_question]" 100] c d
    by blast
qed

text \<open>
  The claim as worded fails in the watcher: for a stored group that the fresh snapshot no
  longer has, the validator's only log entry carries a reason, not the stored record.
\<close>

theorem removal_log_reason_counterexample:
  "map_of [(''Gamma vs Delta'', gamma_group)] ''Gamma vs Delta'' = Some gamma_group \<and>
   build_live_snapshot iso_unavailable (Inr []) 100 True = Inr [] \<and>
   v_removal_log (validate_snapshot iso_unavailable [(''Gamma vs Delta'', gamma_group)] (Inr []) 100)
     = [RemovedReason ''Gamma vs Delta'' ''no longer approved/present''] \<and>
   RemovedData ''Gamma vs Delta'' gamma_group
     \<notin> set (v_removal_log
              (validate_snapshot iso_unavailable [(''Gamma vs Delta'', gamma_group)] (Inr []) 100))"
  by code_simp

lemma refreshed_fields:
  "end_differs s l \<Longrightarrow>
     map_of (refreshed s l) ''questionEndTime'' = Some (dict_get l ''questionEndTime'') \<and>
     map_of (refreshed s l) ''questionEndTime_iso'' = Some (dict_get l ''questionEndTime_iso'')"
  "\<not> end_differs s l \<Longrightarrow>
     map_of (refreshed s l) ''questionEndTime'' = map_of s ''questionEndTime'' \<and>
     map_of (refreshed s l) ''questionEndTime_iso'' = map_of s ''questionEndTime_iso''"
  "options_differ s l \<Longrightarrow>
     map_of (refreshed s l) ''options'' = Some (dict_get_default l ''options'' (JOptions []))"
  "\<not> options_differ s l \<Longrightarrow> map_of (refreshed s l) ''options'' = map_of s ''options''"
  "approved_differs s l \<Longrightarrow>
     map_of (refreshed s l) ''is_approved'' = Some (dict_get l ''is_approved'')"
  "\<not> approved_differs s l \<Longrightarrow> map_of (refreshed s l) ''is_approved'' = map_of s ''is_approved''"
  by (simp_all add: refreshed_def Let_def update_conv')

lemma refreshed_frame:
  "f \<notin> {''questionEndTime'', ''questionEndTime_iso'', ''options'', ''is_approved''} \<Longrightarrow>
   map_of (refreshed s l) f = map_of s f"
  by (simp add: refreshed_def Let_def update_conv')

lemma validated_persisted:
  assumes "build_live_snapshot utc_iso fetched now True = Inr live" "saved \<noteq> []"
  shows "v_persisted (validate_snapshot utc_iso saved fetched now)
       = (if v_removal_log (validate_snapshot utc_iso saved fetched now) \<noteq> [] \<or>
             v_updated (validate_snapshot utc_iso saved fetched now) \<noteq> []
          then Some (v_saved (validate_snapshot utc_iso saved fetched now)) else None)"
  using assms unfolding validate_snapshot_def
  by (cases "fold (validate_step live) (map fst saved) (saved, [], [])") simp

text \<open>
  Claim C8. For a key present in the saved and in the fresh snapshot, the validator leaves
  under the key the stored group with \<^verbatim>\<open>questionEndTime\<close> (and its display form),
  \<^verbatim>\<open>options\<close> and \<^verbatim>\<open>is_approved\<close> overwritten by the fresh values, each exactly
  when it differs (the options compared structurally); the key is recorded as updated, and
  the snapshot persisted, exactly when one of the three differs; every other field of the
  group, \<^verbatim>\<open>first_detected_at\<close> in particular, is as it was, and a group with no
  difference is unchanged.
\<close>

theorem validator_refreshes_tracked_fields:
  assumes "build_live_snapshot utc_iso fetched now True = Inr live"
    and "distinct (map fst saved)" and "map_of saved k = Some s" and "map_of live k = Some l"
  shows "map_of (v_saved (validate_snapshot utc_iso saved fetched now)) k = Some (refreshed s l) \<and>
         (k \<in> set (v_updated (validate_snapshot utc_iso saved fetched now))
            \<longleftrightarrow> end_differs s l \<or> options_differ s l \<or> approved_differs s l) \<and>
         (end_differs s l \<or> options_differ s l \<or> approved_differs s l
            \<longrightarrow> v_persisted (validate_snapshot utc_iso saved fetched now)
                  = Some (v_saved (validate_snapshot utc_iso saved fetched now))) \<and>
         (end_differs s l \<longrightarrow>
            map_of (refreshed s l) ''questionEndTime'' = Some (dict_get l ''questionEndTime'') \<and>
            map_of (refreshed s l) ''questionEndTime_iso'' = Some (dict_get l ''questionEndTime_iso'')) \<and>
         (\<not> end_differs s l \<longrightarrow>
            map_of (refreshed s l) ''questionEndTime'' = map_of s ''questionEndTime'' \<and>
            map_of (refreshed s l) ''questionEndTime_iso'' = map_of s ''questionEndTime_iso'') \<and>
         (options_differ s l \<longrightarrow>
            map_of (refreshed s l) ''options'' = Some (dict_get_default l ''options'' (JOptions []))) \<and>
         (\<not> options_differ s l \<longrightarrow> map_of (refreshed s l) ''options'' = map_of s ''options'') \<and>
         (approved_differs s l \<longrightarrow>
            map_of (refreshed s l) ''is_approved'' = Some (dict_get l ''is_approved'')) \<and>
         (\<not> approved_differs s l \<longrightarrow>
            map_of (refreshed s l) ''is_approved'' = map_of s ''is_approved'') \<and>
         (\<forall>f. f \<notin> {''questionEndTime'', ''questionEndTime_iso'', ''options'', ''is_approved''}
                \<longrightarrow> map_of (refreshed s l) f = map_of s f) \<and>
         map_of (refreshed s l) ''first_detected_at'' = map_of s ''first_detected_at'' \<and>
         (\<not> end_differs s l \<and> \<not> options_differ s l \<and> \<not> approved_differs s l
            \<longrightarrow> refreshed s l = s)"
proof -
  let ?r = "validate_snapshot utc_iso saved fetched now"
  have ne: "saved \<noteq> []" using assms(3) by auto
  have u: "k \<in> set (v_updated ?r) \<longleftrightarrow> end_differs s l \<or> options_differ s l \<or> approved_differs s l"
    by (rule validated_present(3)[OF assms])
  have p: "end_differs s l \<or> options_differ s l \<or> approved_differs s l
            \<longrightarrow> v_persisted ?r = Some (v_saved ?r)"
  proof
    assume "end_differs s l \<or> options_differ s l \<or> approved_differs s l"
    then have "k \<in> set (v_updated ?r)" using u by simp
    then have "v_updated ?r \<noteq> []" by auto
    then show "v_persisted ?r = Some (v_saved ?r)"
      by (simp add: validated_persisted[OF assms(1) ne])
  qed
  have fda: "map_of (refreshed s l) ''first_detected_at'' = map_of s ''first_detected_at''"
    by (rule refreshed_frame) simp
  show ?thesis
    using refreshed_fields[of s l] refreshed_frame[of _ s l] refreshed_unchanged[of s l]
    by (intro conjI validated_present(1)[OF assms] u p fda) blast+
qed

theorem validator_refreshes_tracked_fields_witness:
  "map_of (v_saved (validate_snapshot iso_unavailable
                      [(''Gamma vs Delta'', gamma_group), (''Alpha vs Beta'', stored_alpha_group)]
                      (Inr [alpha_question]) 100)) ''Alpha vs Beta''
     = Some (refreshed stored_alpha_group alpha_group) \<and>
   end_differs stored_alpha_group alpha_group \<and>
   map_of (refreshed stored_alpha_group alpha_group) ''questionEndTime'' = Some (JInt 200) \<and>
   map_of (refreshed stored_alpha_group alpha_group) ''first_detected_at''
     = Some (JStr ''2025-01-01 00:00:00'')"
proof -
  have a: "build_live_snapshot iso_unavailable (Inr [alpha_question]) 100 True
             = Inr [(''Alpha vs Beta'', alpha_group)]"
    by code_simp
  have b: "distinct (map fst [(''Gamma vs Delta'', gamma_group), (''Alpha vs Beta'', stored_alpha_group)])"
    by simp
  have c: "map_of [(''Gamma vs Delta'', gamma_group), (''Alpha vs Beta'', stored_alpha_group)]
             ''Alpha vs Beta'' = Some stored_alpha_group"
    by simp
  have d: "map_of [(''Alpha vs Beta'', alpha_group)] ''Alpha vs Beta'' = Some alpha_group"
    by simp
  have e: "end_differs stored_alpha_group alpha_group"
    by code_simp
  have f: "dict_get alpha_group ''questionEndTime'' = JInt 200"
    by code_simp
  have g: "map_of stored_alpha_group ''first_detected_at'' = Some (JStr ''2025-01-01 00:00:00'')"
    by (simp add: stored_alpha_group_def)
  show ?thesis
    using validator_refreshes_tracked_fields[OF a b c d] e f g by simp
qed

text \<open>
  Claim C9. If building the fresh snapshot fails (a failed fetch makes it fail), the
  validator returns the saved snapshot as it was, writes no removal entry, records no
  update and persists nothing; the exception is the logged error, not raised. For an empty
  saved snapshot no fetch is made and nothing is logged.
\<close>

theorem validator_fetch_failure:
  assumes "build_live_snapshot utc_iso fetched now True = Inl e"
  shows "v_saved (validate_snapshot utc_iso saved fetched now) = saved \<and>
         v_removal_log (validate_snapshot utc_iso saved fetched now) = [] \<and>
         v_updated (validate_snapshot utc_iso saved fetched now) = [] \<and>
         v_persisted (validate_snapshot utc_iso saved fetched now) = None \<and>
         v_summary (validate_snapshot utc_iso saved fetched now) = None \<and>
         v_error (validate_snapshot utc_iso saved fetched now)
           = (if saved = [] then None else Some e) \<and>
         build_live_snapshot utc_iso (Inl e') now True = Inl e'"
  using assms by (simp add: validate_snapshot_def build_live_snapshot_def)

theorem validator_fetch_failure_witness:
  "v_saved (validate_snapshot iso_unavailable [(''Gamma vs Delta'', gamma_group)]
              (Inl TransportError) 100) = [(''Gamma vs Delta'', gamma_group)] \<and>
   v_error (validate_snapshot iso_unavailable [(''Gamma vs Delta'', gamma_group)]
              (Inl TransportError) 100) = Some TransportError"
proof -
  have a: "build_live_snapshot iso_unavailable (Inl TransportError) 100 True = Inl TransportError"
    by (simp add: build_live_snapshot_def)
  show ?thesis
    using validator_fetch_failure[OF a, of "[(''Gamma vs Delta'', gamma_group)]"] by simp
qed


end
